theory Spec2Isabelle
  imports
    Complex_Main
    "HOL-Library.Char_ord"
    "HOL-Library.List_Lexorder"
    "HOL-Library.Product_Lexorder"
begin

section \<open>Synthetic daily spare-parts demand generator\<close>

text \<open>
  A shallow embedding of \<^verbatim>\<open>src/main.py\<close>. Python integers are \<open>int\<close>. Python floats are
  idealised as the real numbers: every arithmetic operation is exact, so the rounding,
  overflow and underflow of IEEE doubles are outside the model, and nothing below is a
  statement about the last bit of a computed float. The library calls of the program (numpy's
  global random stream, scipy's samplers, the pandas date parser) are primitives of a
  record that every function of the model takes as its first argument; the state of the
  random stream is threaded explicitly. Every exception the program can raise is a value
  of the type \<open>error\<close>.
\<close>

subsection \<open>Data model\<close>

datatype category = Smooth | Erratic | Slow | Lumpy

text \<open>
  The first three errors are all Python's \<^verbatim>\<open>ValueError\<close>: a seed outside \<open>0 .. 2^32 - 1\<close>
  given to \<^verbatim>\<open>np.random.seed\<close>, a negative \<^verbatim>\<open>size\<close> given to \<^verbatim>\<open>np.random.choice\<close>,
  and scipy's "Domain error in arguments" of \<^verbatim>\<open>rvs\<close>.
\<close>

datatype error =
    SeedValueError
  | SizeValueError
  | DomainValueError
  | ZeroDivisionError
  | KeyError
  | IndexError
  | DateParseError

text \<open>
  The library primitives. \<open>'s\<close> is the state of numpy's global random stream.
  \<open>random_sample\<close> is one uniform double of the stream; \<open>randint_draw low high\<close>,
  \<open>poisson_draw mu\<close> and \<open>nbinom_draw n p\<close> are the integer samplers, each returning the
  advanced stream. \<open>to_datetime\<close> is the pandas date parser, returning the timestamp
  (nanoseconds since 1970-01-01 00:00) or \<open>None\<close> when the string does not parse.
\<close>

record 's library =
  seed_state :: "int \<Rightarrow> 's"
  random_sample :: "'s \<Rightarrow> real \<times> 's"
  randint_draw :: "int \<Rightarrow> int \<Rightarrow> 's \<Rightarrow> int \<times> 's"
  poisson_draw :: "real \<Rightarrow> 's \<Rightarrow> int \<times> 's"
  nbinom_draw :: "real \<Rightarrow> real \<Rightarrow> 's \<Rightarrow> int \<times> 's"
  to_datetime :: "string \<Rightarrow> int option"

text \<open>The tuple \<^verbatim>\<open>(cal_date, sku, qty)\<close> appended to \<^verbatim>\<open>recs\<close>; a row of the table.\<close>

record demand_record =
  demand_date :: int
  material :: string
  demand_size :: int

text \<open>The per-item local variables of the loop body of \<^verbatim>\<open>generate_data\<close>.\<close>

record sku_params =
  lam_daily :: real
  peak_year :: int
  decay :: real
  mean_size :: real
  cv_size :: real
  nb :: "(real \<times> real) option"

subsection \<open>The calendar\<close>

text \<open>
  A pandas \<^verbatim>\<open>Timestamp\<close> is its number of nanoseconds since 1970-01-01 00:00
  (\<^verbatim>\<open>Timestamp.value\<close>); it carries a time of day. Its proleptic Gregorian day ordinal is
  that of Python's \<^verbatim>\<open>datetime\<close> (day 1 is 0001-01-01, and 1970-01-01 is day 719163).
\<close>

definition day_ns :: int where
  "day_ns = 86400000000000"

definition toordinal :: "int \<Rightarrow> int" where
  "toordinal ts = ts div day_ns + 719163"

text \<open>
  Year, month and weekday of a day ordinal, as Python's \<^verbatim>\<open>datetime\<close> computes them
  (\<^verbatim>\<open>_ord2ymd\<close>; \<^verbatim>\<open>weekday() = (toordinal() + 6) % 7\<close>, Monday is 0).
\<close>

definition days_before_month :: "int \<Rightarrow> int" where
  "days_before_month m =
     (if m = 1 then 0 else if m = 2 then 31 else if m = 3 then 59 else if m = 4 then 90
      else if m = 5 then 120 else if m = 6 then 151 else if m = 7 then 181
      else if m = 8 then 212 else if m = 9 then 243 else if m = 10 then 273
      else if m = 11 then 304 else 334)"

definition ord2ym :: "int \<Rightarrow> int \<times> int" where
  "ord2ym ordinal =
     (let n = ordinal - 1;
          n400 = n div 146097; n = n mod 146097;
          n100 = n div 36524; n = n mod 36524;
          n4 = n div 1461; n = n mod 1461;
          n1 = n div 365; n = n mod 365;
          y = n400 * 400 + 1 + n100 * 100 + n4 * 4 + n1
      in if n1 = 4 \<or> n100 = 4 then (y - 1, 12)
         else
           let leapyear = (n1 = 3 \<and> (n4 \<noteq> 24 \<or> n100 = 3));
               m = (n + 50) div 32;
               preceding = days_before_month m + (if 2 < m \<and> leapyear then 1 else 0)
           in if n < preceding then (y, m - 1) else (y, m))"

text \<open>The accessors \<^verbatim>\<open>.year\<close>, \<^verbatim>\<open>.month\<close> and \<^verbatim>\<open>.weekday()\<close> of a timestamp.\<close>

definition year_of :: "int \<Rightarrow> int" where
  "year_of ts = fst (ord2ym (toordinal ts))"

definition month_of :: "int \<Rightarrow> int" where
  "month_of ts = snd (ord2ym (toordinal ts))"

definition weekday :: "int \<Rightarrow> int" where
  "weekday ts = (toordinal ts + 6) mod 7"

text \<open>
  The index of \<^verbatim>\<open>pd.date_range(start, end, freq="D")\<close> for two timestamps: the start, then
  steps of 24 hours for as long as the end is not passed. The time of day of the start is
  kept; the index is empty when the end is earlier than the start.
\<close>

definition day_steps :: "int \<Rightarrow> int \<Rightarrow> int list" where
  "day_steps a b = map (\<lambda>k. a + int k * day_ns) [0..<nat ((b - a) div day_ns + 1)]"

text \<open>\<^verbatim>\<open>pd.date_range(start_date, end_date, freq="D")\<close>: both strings are parsed first.\<close>

definition date_range :: "'s library \<Rightarrow> string \<Rightarrow> string \<Rightarrow> error + int list" where
  "date_range L start_date end_date =
     (case to_datetime L start_date of
        None \<Rightarrow> Inl DateParseError
      | Some a \<Rightarrow>
          (case to_datetime L end_date of
             None \<Rightarrow> Inl DateParseError
           | Some b \<Rightarrow> Inr (day_steps a b)))"

subsection \<open>The Negative-Binomial parameter solver\<close>

text \<open>Python's float division raises on a zero divisor.\<close>

definition fdiv :: "real \<Rightarrow> real \<Rightarrow> error + real" where
  "fdiv a b = (if b = 0 then Inl ZeroDivisionError else Inr (a / b))"

text \<open>\<^verbatim>\<open>np.clip(x, lo, hi)\<close> is \<^verbatim>\<open>minimum(maximum(x, lo), hi)\<close>.\<close>

definition clip :: "real \<Rightarrow> real \<Rightarrow> real \<Rightarrow> real" where
  "clip x lo hi = min (max x lo) hi"

text \<open>
  \<^verbatim>\<open>nb_params(mean, cv)\<close> in exact arithmetic. The pair \<^verbatim>\<open>(None, None)\<close> is \<open>None\<close>; the
  caller only tests \<^verbatim>\<open>r_nb is None\<close>. The comparison and the quotients are those of the
  real numbers; on doubles the program rounds each operation, raises \<^verbatim>\<open>OverflowError\<close> when
  a square overflows and returns \<open>r = 0.0\<close> when the quotient underflows.
\<close>

definition nb_params :: "real \<Rightarrow> real \<Rightarrow> error + (real \<times> real) option" where
  "nb_params mean cv =
     (let var = (cv * mean) ^ 2 in
      if var \<le> mean then Inr None
      else
        (case fdiv (mean ^ 2) (var - mean) of
           Inl e \<Rightarrow> Inl e
         | Inr r \<Rightarrow>
             (case fdiv r (r + mean) of
                Inl e \<Rightarrow> Inl e
              | Inr p \<Rightarrow> Inr (Some (r, clip p (1 / 10 ^ 6) (1 - 1 / 10 ^ 6))))))"

subsection \<open>Drawing from the random stream\<close>

text \<open>\<^verbatim>\<open>np.random.uniform(low, high)\<close> scales one uniform double.\<close>

definition uniform :: "'s library \<Rightarrow> real \<Rightarrow> real \<Rightarrow> 's \<Rightarrow> real \<times> 's" where
  "uniform L low high s =
     (case random_sample L s of (u, s') \<Rightarrow> (low + (high - low) * u, s'))"

text \<open>
  \<^verbatim>\<open>np.random.choice(["smooth", "erratic", "slow", "lumpy"], size=n, p=[0.20, 0.20, 0.30, 0.30])\<close>
  draws \<open>n\<close> uniform doubles and looks each one up in the cumulative distribution
  \<open>[0.2, 0.4, 0.7, 1.0]\<close> (\<^verbatim>\<open>searchsorted\<close>, side right): the index is the number of
  entries that are at most \<open>u\<close>. Index 4 is outside the list of categories.
\<close>

definition pick_category :: "real \<Rightarrow> error + category" where
  "pick_category u =
     (if u < 2 / 10 then Inr Smooth
      else if u < 4 / 10 then Inr Erratic
      else if u < 7 / 10 then Inr Slow
      else if u < 1 then Inr Lumpy
      else Inl IndexError)"

fun random_samples :: "'s library \<Rightarrow> nat \<Rightarrow> 's \<Rightarrow> real list \<times> 's" where
  "random_samples L 0 s = ([], s)"
| "random_samples L (Suc k) s =
     (case random_sample L s of (u, s1) \<Rightarrow>
        (case random_samples L k s1 of (us, s2) \<Rightarrow> (u # us, s2)))"

fun pick_categories :: "real list \<Rightarrow> error + category list" where
  "pick_categories [] = Inr []"
| "pick_categories (u # us) =
     (case pick_category u of
        Inl e \<Rightarrow> Inl e
      | Inr c \<Rightarrow> (case pick_categories us of Inl e \<Rightarrow> Inl e | Inr cs \<Rightarrow> Inr (c # cs)))"

definition choice :: "'s library \<Rightarrow> int \<Rightarrow> 's \<Rightarrow> error + (category list \<times> 's)" where
  "choice L n s =
     (if n < 0 then Inl SizeValueError
      else
        (case random_samples L (nat n) s of (us, s') \<Rightarrow>
           (case pick_categories us of Inl e \<Rightarrow> Inl e | Inr cs \<Rightarrow> Inr (cs, s'))))"

text \<open>
  \<^verbatim>\<open>poisson.rvs(mu)\<close> and \<^verbatim>\<open>nbinom.rvs(n, p)\<close> check their arguments first
  (\<open>mu \<ge> 0\<close>; \<open>n > 0\<close>, \<open>0 < p \<le> 1\<close>) and raise on a domain error.
\<close>

definition poisson_rvs :: "'s library \<Rightarrow> real \<Rightarrow> 's \<Rightarrow> error + (int \<times> 's)" where
  "poisson_rvs L mu s = (if 0 \<le> mu then Inr (poisson_draw L mu s) else Inl DomainValueError)"

definition nbinom_rvs :: "'s library \<Rightarrow> real \<Rightarrow> real \<Rightarrow> 's \<Rightarrow> error + (int \<times> 's)" where
  "nbinom_rvs L n p s =
     (if 0 < n \<and> 0 < p \<and> p \<le> 1 then Inr (nbinom_draw L n p s) else Inl DomainValueError)"

subsection \<open>The per-item parameters\<close>

text \<open>Lines 64 to 80 of \<^verbatim>\<open>generate_data\<close>: the draws of one item, in the order of the code.\<close>

definition draw_params :: "'s library \<Rightarrow> category \<Rightarrow> 's \<Rightarrow> error + (sku_params \<times> 's)" where
  "draw_params L cat s0 =
     (case (if cat = Smooth \<or> cat = Erratic then uniform L (7 / 10) 1 s0
            else (case uniform L (- (35 / 10)) (- 1) s0 of (x, s') \<Rightarrow> (10 powr x, s')))
      of (lam, s1) \<Rightarrow>
     (case randint_draw L 1 4 s1 of (py, s2) \<Rightarrow>
     (case uniform L (5 / 100) (15 / 100) s2 of (dc, s3) \<Rightarrow>
     (case uniform L 1 10 s3 of (ms, s4) \<Rightarrow>
     (case (if cat = Smooth \<or> cat = Slow then uniform L (3 / 10) (6 / 10) s4
            else uniform L (8 / 10) (25 / 10) s4)
      of (cv, s5) \<Rightarrow>
     (case nb_params ms cv of
        Inl e \<Rightarrow> Inl e
      | Inr r_p \<Rightarrow>
          Inr (\<lparr>lam_daily = lam, peak_year = py, decay = dc, mean_size = ms,
                cv_size = cv, nb = r_p\<rparr>, s5)))))))"

subsection \<open>One day of one item\<close>

text \<open>The dictionary of day-of-week factors, keyed by \<^verbatim>\<open>cal_date.weekday()\<close>.\<close>

definition dow_table :: "(int \<times> real) list" where
  "dow_table = [(0, 1), (1, 1), (2, 1), (3, 1), (4, 1), (5, 6 / 10), (6, 4 / 10)]"

text \<open>Lines 83 to 91: \<^verbatim>\<open>lam_today\<close> of an item on a day; \<open>t0\<close> is the parsed start date.\<close>

definition lam_today :: "sku_params \<Rightarrow> int \<Rightarrow> int \<Rightarrow> error + real" where
  "lam_today P t0 cal_date =
     (let yrs = year_of cal_date - year_of t0;
          lam_adj = lam_daily P *
            max (1 - decay P * of_int (max (yrs - peak_year P) 0)) (1 / 10)
      in case map_of dow_table (weekday cal_date) of
           None \<Rightarrow> Inl KeyError
         | Some dow_factor \<Rightarrow>
             (let q_factor = (if month_of cal_date = 7 \<or> month_of cal_date = 12
                              then 125 / 100 else 1)
              in Inr (lam_adj * dow_factor * q_factor)))"

text \<open>Lines 93 to 102: the gate, the size draw and the appended record.\<close>

definition day_body ::
  "'s library \<Rightarrow> sku_params \<Rightarrow> int \<Rightarrow> string \<Rightarrow> int \<Rightarrow> 's \<Rightarrow> error + (demand_record \<times> 's)" where
  "day_body L P t0 sku cal_date s =
     (case lam_today P t0 cal_date of
        Inl e \<Rightarrow> Inl e
      | Inr lam \<Rightarrow>
          (case random_sample L s of (u, s1) \<Rightarrow>
             if u < lam then
               (case (case nb P of
                        None \<Rightarrow> poisson_rvs L (mean_size P) s1
                      | Some (r_nb, p_nb) \<Rightarrow> nbinom_rvs L r_nb p_nb s1) of
                  Inl e \<Rightarrow> Inl e
                | Inr (x, s2) \<Rightarrow>
                    Inr (\<lparr>demand_date = cal_date, material = sku, demand_size = max 1 x\<rparr>, s2))
             else Inr (\<lparr>demand_date = cal_date, material = sku, demand_size = 0\<rparr>, s1)))"

subsection \<open>The generator\<close>

text \<open>\<^verbatim>\<open>f"SKU-{idx+1:04d}"\<close>: decimal digits, zero-padded on the left to width 4.\<close>

fun decimal :: "nat \<Rightarrow> string" where
  "decimal n =
     (if n < 10 then [char_of (48 + n)]
      else decimal (n div 10) @ [char_of (48 + n mod 10)])"

definition zero_pad :: "nat \<Rightarrow> string \<Rightarrow> string" where
  "zero_pad w s = replicate (w - length s) (CHR ''0'') @ s"

definition sku_name :: "nat \<Rightarrow> string" where
  "sku_name idx = ''SKU-'' @ zero_pad 4 (decimal (idx + 1))"

text \<open>The inner loop \<^verbatim>\<open>for cal_date in date_idx\<close>, appending to \<^verbatim>\<open>recs\<close>.\<close>

fun date_loop ::
  "'s library \<Rightarrow> sku_params \<Rightarrow> int \<Rightarrow> string \<Rightarrow> int list \<Rightarrow> 's \<Rightarrow> demand_record list
     \<Rightarrow> error + ('s \<times> demand_record list)" where
  "date_loop L P t0 sku [] s recs = Inr (s, recs)"
| "date_loop L P t0 sku (cal_date # rest) s recs =
     (case day_body L P t0 sku cal_date s of
        Inl e \<Rightarrow> Inl e
      | Inr (r, s') \<Rightarrow> date_loop L P t0 sku rest s' (recs @ [r]))"

text \<open>The outer loop \<^verbatim>\<open>for idx in range(n_sku)\<close>.\<close>

fun sku_loop ::
  "'s library \<Rightarrow> category list \<Rightarrow> int list \<Rightarrow> int \<Rightarrow> nat list \<Rightarrow> 's \<Rightarrow> demand_record list
     \<Rightarrow> error + ('s \<times> demand_record list)" where
  "sku_loop L categories date_idx t0 [] s recs = Inr (s, recs)"
| "sku_loop L categories date_idx t0 (idx # rest) s recs =
     (if length categories \<le> idx then Inl IndexError
      else
        (case draw_params L (categories ! idx) s of
           Inl e \<Rightarrow> Inl e
         | Inr (P, s1) \<Rightarrow>
             (case date_loop L P t0 (sku_name idx) date_idx s1 recs of
                Inl e \<Rightarrow> Inl e
              | Inr (s2, recs') \<Rightarrow> sku_loop L categories date_idx t0 rest s2 recs')))"

text \<open>\<^verbatim>\<open>df.sort_values(["Material", "Demand Date"])\<close>: strings compare by code point.\<close>

definition sort_values :: "demand_record list \<Rightarrow> demand_record list" where
  "sort_values recs = sort_key (\<lambda>r. (material r, demand_date r)) recs"

definition generate_data ::
  "'s library \<Rightarrow> int \<Rightarrow> string \<Rightarrow> string \<Rightarrow> int \<Rightarrow> error + demand_record list" where
  "generate_data L n_sku start_date end_date seed =
     (if seed < 0 \<or> 2 ^ 32 \<le> seed then Inl SeedValueError
      else
        (case choice L n_sku (seed_state L seed) of
           Inl e \<Rightarrow> Inl e
         | Inr (categories, s1) \<Rightarrow>
             (case date_range L start_date end_date of
                Inl e \<Rightarrow> Inl e
              | Inr date_idx \<Rightarrow>
                  (case to_datetime L start_date of
                     None \<Rightarrow> Inl DateParseError
                   | Some t0 \<Rightarrow>
                       (case sku_loop L categories date_idx t0 [0..<nat n_sku] s1 [] of
                          Inl e \<Rightarrow> Inl e
                        | Inr (s2, recs) \<Rightarrow> Inr (sort_values recs))))))"

text \<open>
  The entry point: the table is written to the output file only when \<^verbatim>\<open>generate_data\<close>
  returns; an exception ends the program before \<^verbatim>\<open>to_csv\<close> is reached. \<open>Inr\<close> is the
  table written, \<open>Inl\<close> the uncaught exception, with nothing written.
\<close>

record args =
  arg_sku :: int
  arg_start :: string
  arg_end :: string
  arg_seed :: int

definition main :: "'s library \<Rightarrow> args \<Rightarrow> error + demand_record list" where
  "main L a = generate_data L (arg_sku a) (arg_start a) (arg_end a) (arg_seed a)"

subsection \<open>Well-formed streams and solved parameters\<close>

text \<open>
  The contract of numpy's \<^verbatim>\<open>random_sample\<close>: every uniform double lies in the half-open
  interval from 0 to 1.
\<close>

definition unit_stream :: "'s library \<Rightarrow> bool" where
  "unit_stream L = (\<forall>s. 0 \<le> fst (random_sample L s) \<and> fst (random_sample L s) < 1)"

text \<open>
  The invariant of line 79: the size-distribution parameters of an item are the ones
  \<^verbatim>\<open>nb_params\<close> returned for its mean and coefficient of variation.
\<close>

definition solved :: "sku_params \<Rightarrow> bool" where
  "solved P = (nb_params (mean_size P) (cv_size P) = Inr (nb P))"

subsection \<open>The order of draws, stated independently of the code\<close>

text \<open>
  The effective rate of an item on a day in the words of the specification (section 4.3,
  steps 1 to 5): years since the peak, aged rate, day-of-week factor, seasonal factor.
\<close>

definition spec_rate :: "sku_params \<Rightarrow> int \<Rightarrow> int \<Rightarrow> real" where
  "spec_rate P t0 d =
     (let yearsSincePeak = max (year_of d - year_of t0 - peak_year P) 0;
          agedRate = lam_daily P * max (1 - decay P * of_int yearsSincePeak) (1 / 10);
          dowFactor = (if weekday d = 5 then 6 / 10 else if weekday d = 6 then 4 / 10 else 1);
          seasonalFactor = (if month_of d \<in> {7, 12} then 125 / 100 else 1)
      in agedRate * dowFactor * seasonalFactor)"

text \<open>
  The parameters of one item in the words of the specification (section 4.1): five
  draws from the stream, in the fixed field order daily rate, peak year, decay rate, mean
  size, coefficient of variation of the size. Each draw starts from the stream the
  previous draw left. The size distribution is then solved from the last two, without a
  draw.
\<close>

definition spec_params :: "'s library \<Rightarrow> category \<Rightarrow> 's \<Rightarrow> error + (sku_params \<times> 's)" where
  "spec_params L cat s =
     (let dense = (cat \<in> {Smooth, Erratic});
          narrow = (cat \<in> {Smooth, Slow});
          rate_draw = (if dense then uniform L (7 / 10) 1 s else uniform L (- (35 / 10)) (- 1) s);
          dailyRate = (if dense then fst rate_draw else 10 powr fst rate_draw);
          peak_draw = randint_draw L 1 4 (snd rate_draw);
          decay_draw = uniform L (5 / 100) (15 / 100) (snd peak_draw);
          mean_draw = uniform L 1 10 (snd decay_draw);
          cv_draw = (if narrow then uniform L (3 / 10) (6 / 10) (snd mean_draw)
                     else uniform L (8 / 10) (25 / 10) (snd mean_draw))
      in case nb_params (fst mean_draw) (fst cv_draw) of
           Inl e \<Rightarrow> Inl e
         | Inr sizeDistribution \<Rightarrow>
             Inr (\<lparr>lam_daily = dailyRate, peak_year = fst peak_draw, decay = fst decay_draw,
                   mean_size = fst mean_draw, cv_size = fst cv_draw, nb = sizeDistribution\<rparr>,
                  snd cv_draw))"

text \<open>
  One day of one item in the words of the specification (section 4.3, steps 6 and 7):
  exactly one gate draw; on an occurrence exactly one size draw from the stream the gate
  draw left, floored at 1; on no occurrence the quantity is 0 and nothing more is drawn.
\<close>

definition spec_day ::
  "'s library \<Rightarrow> sku_params \<Rightarrow> int \<Rightarrow> string \<Rightarrow> int \<Rightarrow> 's \<Rightarrow> error + (demand_record \<times> 's)" where
  "spec_day L P t0 sku d s =
     (let gate_draw = random_sample L s in
      if fst gate_draw < spec_rate P t0 d then
        (case (case nb P of
                 None \<Rightarrow> poisson_rvs L (mean_size P) (snd gate_draw)
               | Some (r, p) \<Rightarrow> nbinom_rvs L r p (snd gate_draw)) of
           Inl e \<Rightarrow> Inl e
         | Inr size_draw \<Rightarrow>
             Inr (\<lparr>demand_date = d, material = sku, demand_size = max 1 (fst size_draw)\<rparr>,
                  snd size_draw))
      else Inr (\<lparr>demand_date = d, material = sku, demand_size = 0\<rparr>, snd gate_draw))"

text \<open>The days of an item in calendar order, each from the stream the day before left.\<close>

fun spec_days ::
  "'s library \<Rightarrow> sku_params \<Rightarrow> int \<Rightarrow> string \<Rightarrow> int list \<Rightarrow> 's
     \<Rightarrow> error + (demand_record list \<times> 's)" where
  "spec_days L P t0 sku [] s = Inr ([], s)"
| "spec_days L P t0 sku (d # ds) s =
     (case spec_day L P t0 sku d s of
        Inl e \<Rightarrow> Inl e
      | Inr (r, s1) \<Rightarrow>
          (case spec_days L P t0 sku ds s1 of
             Inl e \<Rightarrow> Inl e
           | Inr (rs, s2) \<Rightarrow> Inr (r # rs, s2)))"

text \<open>One item: its parameters, then its days, with no other draw in between.\<close>

definition spec_item ::
  "'s library \<Rightarrow> int list \<Rightarrow> int \<Rightarrow> nat \<Rightarrow> category \<Rightarrow> 's
     \<Rightarrow> error + (demand_record list \<times> 's)" where
  "spec_item L dates t0 idx cat s =
     (case spec_params L cat s of
        Inl e \<Rightarrow> Inl e
      | Inr (P, s1) \<Rightarrow> spec_days L P t0 (sku_name idx) dates s1)"

text \<open>
  The items in turn, each with its already drawn category; an item starts from the stream
  the item before left.
\<close>

fun batched_order ::
  "'s library \<Rightarrow> int list \<Rightarrow> int \<Rightarrow> (nat \<times> category) list \<Rightarrow> 's
     \<Rightarrow> error + (demand_record list \<times> 's)" where
  "batched_order L dates t0 [] s = Inr ([], s)"
| "batched_order L dates t0 ((idx, cat) # rest) s =
     (case spec_item L dates t0 idx cat s of
        Inl e \<Rightarrow> Inl e
      | Inr (rs, s1) \<Rightarrow>
          (case batched_order L dates t0 rest s1 of
             Inl e \<Rightarrow> Inl e
           | Inr (others, s2) \<Rightarrow> Inr (rs @ others, s2)))"

text \<open>
  The order of draws with the categories of all items first, in one batch of \<open>n_sku\<close>
  draws, then the items in turn. Seeding, date parsing and sorting are those of the code.
\<close>

definition batched_reference ::
  "'s library \<Rightarrow> int \<Rightarrow> string \<Rightarrow> string \<Rightarrow> int \<Rightarrow> error + demand_record list" where
  "batched_reference L n_sku start_date end_date seed =
     (if seed < 0 \<or> 2 ^ 32 \<le> seed then Inl SeedValueError
      else
        (case choice L n_sku (seed_state L seed) of
           Inl e \<Rightarrow> Inl e
         | Inr (categories, s1) \<Rightarrow>
             (case date_range L start_date end_date of
                Inl e \<Rightarrow> Inl e
              | Inr dates \<Rightarrow>
                  (case to_datetime L start_date of
                     None \<Rightarrow> Inl DateParseError
                   | Some t0 \<Rightarrow>
                       (case batched_order L dates t0 (zip [0..<nat n_sku] categories) s1 of
                          Inl e \<Rightarrow> Inl e
                        | Inr (recs, s2) \<Rightarrow> Inr (sort_values recs))))))"

text \<open>
  The order of draws of the specification: for each item in turn its category first, then
  its parameters, then its days.
\<close>

fun per_item_order ::
  "'s library \<Rightarrow> int list \<Rightarrow> int \<Rightarrow> nat list \<Rightarrow> 's
     \<Rightarrow> error + (demand_record list \<times> 's)" where
  "per_item_order L dates t0 [] s = Inr ([], s)"
| "per_item_order L dates t0 (idx # rest) s =
     (case random_sample L s of (u, s0) \<Rightarrow>
        (case pick_category u of
           Inl e \<Rightarrow> Inl e
         | Inr cat \<Rightarrow>
             (case spec_item L dates t0 idx cat s0 of
                Inl e \<Rightarrow> Inl e
              | Inr (rs, s1) \<Rightarrow>
                  (case per_item_order L dates t0 rest s1 of
                     Inl e \<Rightarrow> Inl e
                   | Inr (others, s2) \<Rightarrow> Inr (rs @ others, s2)))))"

text \<open>
  The generator with the per-item order of draws of the specification. Seeding, date
  parsing and sorting are those of the code.
\<close>

definition per_item_reference ::
  "'s library \<Rightarrow> int \<Rightarrow> string \<Rightarrow> string \<Rightarrow> int \<Rightarrow> error + demand_record list" where
  "per_item_reference L n_sku start_date end_date seed =
     (if seed < 0 \<or> 2 ^ 32 \<le> seed then Inl SeedValueError
      else if n_sku < 0 then Inl SizeValueError
      else
        (case date_range L start_date end_date of
           Inl e \<Rightarrow> Inl e
         | Inr dates \<Rightarrow>
             (case to_datetime L start_date of
                None \<Rightarrow> Inl DateParseError
              | Some t0 \<Rightarrow>
                  (case per_item_order L dates t0 [0..<nat n_sku] (seed_state L seed) of
                     Inl e \<Rightarrow> Inl e
                   | Inr (recs, s2) \<Rightarrow> Inr (sort_values recs)))))"

subsection \<open>Auxiliary functions of the proofs\<close>

text \<open>
  The inner loop as a function from the stream to the item's records and the advanced
  stream, without the accumulator.
\<close>

fun item_days ::
  "'s library \<Rightarrow> sku_params \<Rightarrow> int \<Rightarrow> string \<Rightarrow> int list \<Rightarrow> 's
     \<Rightarrow> error + (demand_record list \<times> 's)" where
  "item_days L P t0 sku [] s = Inr ([], s)"
| "item_days L P t0 sku (cal_date # rest) s =
     (case day_body L P t0 sku cal_date s of
        Inl e \<Rightarrow> Inl e
      | Inr (r, s1) \<Rightarrow>
          (case item_days L P t0 sku rest s1 of
             Inl e \<Rightarrow> Inl e
           | Inr (rs, s2) \<Rightarrow> Inr (r # rs, s2)))"

text \<open>The outer loop over pairs of an index and its category, without the accumulator.\<close>

fun batched_items ::
  "'s library \<Rightarrow> int list \<Rightarrow> int \<Rightarrow> (nat \<times> category) list \<Rightarrow> 's
     \<Rightarrow> error + (demand_record list \<times> 's)" where
  "batched_items L dates t0 [] s = Inr ([], s)"
| "batched_items L dates t0 ((idx, cat) # rest) s =
     (case draw_params L cat s of
        Inl e \<Rightarrow> Inl e
      | Inr (P, s1) \<Rightarrow>
          (case item_days L P t0 (sku_name idx) dates s1 of
             Inl e \<Rightarrow> Inl e
           | Inr (rs, s2) \<Rightarrow>
               (case batched_items L dates t0 rest s2 of
                  Inl e \<Rightarrow> Inl e
                | Inr (others, s3) \<Rightarrow> Inr (rs @ others, s3))))"

text \<open>The sort key of a row: the pair of the columns \<^verbatim>\<open>Material\<close> and \<^verbatim>\<open>Demand Date\<close>.\<close>

definition row_key :: "demand_record \<Rightarrow> string \<times> int" where
  "row_key r = (material r, demand_date r)"

text \<open>The number a string of decimal digits denotes; used to show that item names are distinct.\<close>

definition undecimal :: "string \<Rightarrow> nat" where
  "undecimal s = foldl (\<lambda>a c. 10 * a + (of_char c - 48)) 0 s"

subsection \<open>A concrete library for the instances\<close>

text \<open>The timestamp of a day ordinal and a number of seconds after midnight.\<close>

definition at_day :: "int \<Rightarrow> int \<Rightarrow> int" where
  "at_day ordinal seconds = (ordinal - 719163) * day_ns + seconds * 1000000000"

text \<open>
  A parser that knows three dates (2023-01-01 is day 738521, a Sunday), one timestamp with
  a time of day, and rejects every other string.
\<close>

definition demo_calendar :: "string \<Rightarrow> int option" where
  "demo_calendar = map_of
     [(''2023-01-01'', at_day 738521 0), (''2023-01-02'', at_day 738522 0),
      (''2023-07-03'', at_day 738704 0), (''2023-01-01 18:00'', at_day 738521 64800)]"

text \<open>
  A deterministic stream whose state counts the draws made so far. Every uniform double
  is \<open>1 / 10\<close>, \<^verbatim>\<open>randint\<close> returns its lower bound, and a size draw returns the number of
  draws made before it, so the quantities of a table show where in the stream each size
  draw took place.
\<close>

definition counting :: "nat library" where
  "counting = \<lparr>seed_state = (\<lambda>_. 0), random_sample = (\<lambda>s. (1 / 10, Suc s)),
     randint_draw = (\<lambda>lo hi s. (lo, Suc s)), poisson_draw = (\<lambda>mu s. (int s, Suc s)),
     nbinom_draw = (\<lambda>n p s. (int s, Suc s)), to_datetime = demo_calendar\<rparr>"

text \<open>The parameters that \<open>counting\<close> draws for an item of category smooth.\<close>

definition smooth_sku :: sku_params where
  "smooth_sku = \<lparr>lam_daily = 73 / 100, peak_year = 1, decay = 6 / 100, mean_size = 19 / 10,
     cv_size = 33 / 100, nb = None\<rparr>"

text \<open>An item whose rate saturates the gate on a weekday in July: \<open>0.9 * 1.25 = 1.125\<close>.\<close>

definition july_sku :: sku_params where
  "july_sku = \<lparr>lam_daily = 9 / 10, peak_year = 1, decay = 1 / 10, mean_size = 4,
     cv_size = 3 / 10, nb = None\<rparr>"

text \<open>The item of the seasonality scenario: no decay and a daily rate of \<open>0.8\<close>.\<close>

definition saturday_sku :: sku_params where
  "saturday_sku = \<lparr>lam_daily = 8 / 10, peak_year = 1, decay = 0, mean_size = 4,
     cv_size = 3 / 10, nb = None\<rparr>"

section \<open>Properties\<close>

subsection \<open>The parameter solver\<close>

lemma clip_bounds: "lo \<le> hi \<Longrightarrow> lo \<le> clip x lo hi \<and> clip x lo hi \<le> hi"
  by (simp add: clip_def)

lemma nb_params_None_iff: "nb_params mean cv = Inr None \<longleftrightarrow> (cv * mean)\<^sup>2 \<le> mean"
  by (simp add: nb_params_def fdiv_def Let_def split: sum.splits)

lemma nb_params_Some:
  assumes "nb_params mean cv = Inr (Some (r, p))"
  shows "mean < (cv * mean)\<^sup>2" and "r = mean\<^sup>2 / ((cv * mean)\<^sup>2 - mean)" and "r + mean \<noteq> 0"
    and "p = clip (r / (r + mean)) (1 / 10 ^ 6) (1 - 1 / 10 ^ 6)"
  using assms by (auto simp: nb_params_def fdiv_def Let_def split: if_splits)

lemma nb_params_r_pos:
  assumes "nb_params mean cv = Inr (Some (r, p))"
  shows "0 < r"
proof -
  have lt: "mean < (cv * mean)\<^sup>2" and r: "r = mean\<^sup>2 / ((cv * mean)\<^sup>2 - mean)"
    using nb_params_Some [OF assms] by simp_all
  have "mean \<noteq> 0" using lt by auto
  then have "0 < mean\<^sup>2" by simp
  moreover have "0 < (cv * mean)\<^sup>2 - mean" using lt by simp
  ultimately show ?thesis unfolding r by (rule divide_pos_pos)
qed

lemma nb_params_p_range:
  assumes "nb_params mean cv = Inr (Some (r, p))"
  shows "1 / 10 ^ 6 \<le> p \<and> p \<le> 1 - 1 / 10 ^ 6"
  using nb_params_Some(4) [OF assms] clip_bounds [of "1 / 10 ^ 6" "1 - 1 / 10 ^ 6"] by simp

lemma nb_params_pos_mean:
  assumes "0 < mean"
  shows "nb_params mean cv =
     (if (cv * mean)\<^sup>2 \<le> mean then Inr None
      else Inr (Some (mean\<^sup>2 / ((cv * mean)\<^sup>2 - mean),
        clip (mean\<^sup>2 / ((cv * mean)\<^sup>2 - mean) / (mean\<^sup>2 / ((cv * mean)\<^sup>2 - mean) + mean))
          (1 / 10 ^ 6) (1 - 1 / 10 ^ 6))))"
proof (cases "(cv * mean)\<^sup>2 \<le> mean")
  case True
  then show ?thesis by (simp add: nb_params_def)
next
  case False
  then have d: "0 < (cv * mean)\<^sup>2 - mean" by simp
  have "0 < mean\<^sup>2" using assms by simp
  then have "0 < mean\<^sup>2 / ((cv * mean)\<^sup>2 - mean)" using d by (rule divide_pos_pos)
  then have "mean\<^sup>2 / ((cv * mean)\<^sup>2 - mean) + mean \<noteq> 0" using assms by linarith
  with False d show ?thesis by (simp add: nb_params_def fdiv_def Let_def)
qed

lemma nb_params_None_mean: "nb_params mean cv = Inr None \<Longrightarrow> 0 \<le> mean"
proof -
  assume "nb_params mean cv = Inr None"
  then have "(cv * mean)\<^sup>2 \<le> mean" by (simp add: nb_params_None_iff)
  moreover have "0 \<le> (cv * mean)\<^sup>2" by simp
  ultimately show ?thesis by linarith
qed

subsection \<open>Uniform draws and the calendar\<close>

lemma uniform_range:
  assumes "unit_stream L" and "low \<le> high" and "uniform L low high s = (x, s')"
  shows "low \<le> x \<and> x \<le> high"
proof -
  obtain u s1 where rs: "random_sample L s = (u, s1)" by (cases "random_sample L s")
  have u: "0 \<le> u" "u < 1" using assms(1) rs unfolding unit_stream_def by (metis fst_conv)+
  have x: "x = low + (high - low) * u" using assms(3) rs by (simp add: uniform_def)
  have "0 \<le> (high - low) * u" using u assms(2) by simp
  moreover have "(high - low) * u \<le> (high - low) * 1"
    using u assms(2) by (intro mult_left_mono) simp_all
  ultimately show ?thesis unfolding x by simp
qed

lemma weekday_range: "0 \<le> weekday d \<and> weekday d \<le> 6"
  by (simp add: weekday_def) 

lemma dow_lookup:
  "map_of dow_table (weekday d) =
     Some (if weekday d \<le> 4 then 1 else if weekday d = 5 then 6 / 10 else 4 / 10)"
proof -
  have "weekday d \<in> {0, 1, 2, 3, 4, 5, 6}" using weekday_range [of d] by (simp, arith)
  then show ?thesis by (auto simp: dow_table_def)
qed

subsection \<open>One day\<close>

lemma lam_today_eq:
  "lam_today P t0 d =
     Inr (lam_daily P * max (1 - decay P * of_int (max (year_of d - year_of t0 - peak_year P) 0)) (1 / 10)
          * (if weekday d \<le> 4 then 1 else if weekday d = 5 then 6 / 10 else 4 / 10)
          * (if month_of d = 7 \<or> month_of d = 12 then 125 / 100 else 1))"
  by (simp add: lam_today_def dow_lookup Let_def)

lemma solved_sampler:
  assumes "solved P"
  shows "\<exists>x s2. (case nb P of None \<Rightarrow> poisson_rvs L (mean_size P) s
                   | Some (r_nb, p_nb) \<Rightarrow> nbinom_rvs L r_nb p_nb s) = Inr (x, s2)"
proof (cases "nb P")
  case None
  then have "0 \<le> mean_size P" using assms nb_params_None_mean unfolding solved_def by metis
  then show ?thesis using None by (simp add: poisson_rvs_def prod_eq_iff)
next
  case (Some rp)
  obtain r p where rp: "rp = (r, p)" by (cases rp)
  have np: "nb_params (mean_size P) (cv_size P) = Inr (Some (r, p))"
    using assms Some rp by (simp add: solved_def)
  have "0 < r" using nb_params_r_pos [OF np] .
  moreover have "0 < p \<and> p \<le> 1" using nb_params_p_range [OF np] by simp
  ultimately show ?thesis using Some rp by (simp add: nbinom_rvs_def prod_eq_iff)
qed

lemma day_body_returns:
  assumes "solved P" and that: "lam_today P t0 d = Inr lam"
  shows "\<exists>r s'. day_body L P t0 sku d s = Inr (r, s') \<and> demand_date r = d \<and> material r = sku
     \<and> (demand_size r = 0 \<longleftrightarrow> \<not> fst (random_sample L s) < lam)
     \<and> (fst (random_sample L s) < lam \<longrightarrow> 1 \<le> demand_size r)"
proof -
  obtain u s1 where rs: "random_sample L s = (u, s1)" by (cases "random_sample L s")
  show ?thesis
  proof (cases "u < lam")
    case True
    obtain x s2 where "(case nb P of None \<Rightarrow> poisson_rvs L (mean_size P) s1
                   | Some (r_nb, p_nb) \<Rightarrow> nbinom_rvs L r_nb p_nb s1) = Inr (x, s2)"
      using solved_sampler [OF assms(1), where L = L and s = s1] by blast
    then show ?thesis using True rs that by (simp add: day_body_def)
  next
    case False
    then show ?thesis using rs that by (simp add: day_body_def)
  qed
qed

lemma day_body_record:
  assumes "day_body L P t0 sku d s = Inr (r, s')"
  shows "demand_date r = d \<and> material r = sku \<and> 0 \<le> demand_size r"
  using assms
  by (auto simp: day_body_def split: sum.splits prod.splits if_splits)

subsection \<open>The parameters of an item\<close>

lemma draw_params_solved:
  assumes "draw_params L cat s = Inr (P, s')"
  shows "solved P"
  using assms by (auto simp: draw_params_def solved_def split: prod.splits sum.splits)

lemma draw_params_returns:
  assumes "unit_stream L"
  shows "\<exists>P s'. draw_params L cat s = Inr (P, s')"
proof -
  obtain lam s1 where a: "(if cat = Smooth \<or> cat = Erratic then uniform L (7 / 10) 1 s
            else (case uniform L (- (35 / 10)) (- 1) s of (x, s') \<Rightarrow> (10 powr x, s'))) = (lam, s1)"
    by fastforce
  obtain py s2 where b: "randint_draw L 1 4 s1 = (py, s2)" by fastforce
  obtain dc s3 where c: "uniform L (5 / 100) (15 / 100) s2 = (dc, s3)" by fastforce
  obtain ms s4 where d: "uniform L 1 10 s3 = (ms, s4)" by fastforce
  obtain cv s5 where e: "(if cat = Smooth \<or> cat = Slow then uniform L (3 / 10) (6 / 10) s4
            else uniform L (8 / 10) (25 / 10) s4) = (cv, s5)" by fastforce
  have "1 \<le> ms" using uniform_range [OF assms _ d] by simp
  then have "0 < ms" by simp
  then obtain r_p where "nb_params ms cv = Inr r_p" using nb_params_pos_mean by metis
  then show ?thesis using a b c d e by (simp add: draw_params_def)
qed

subsection \<open>The loops as functions of the stream\<close>

lemma date_loop_item_days:
  "date_loop L P t0 sku ds s recs =
     (case item_days L P t0 sku ds s of
        Inl e \<Rightarrow> Inl e
      | Inr (new, s') \<Rightarrow> Inr (s', recs @ new))"
proof (induction ds arbitrary: s recs)
  case Nil
  show ?case by simp
next
  case (Cons d ds)
  show ?case
  proof (cases "day_body L P t0 sku d s")
    case (Inl e)
    then show ?thesis by simp
  next
    case (Inr rs)
    obtain r s1 where rs: "rs = (r, s1)" by (cases rs)
    show ?thesis using Inr rs Cons.IH [of s1 "recs @ [r]"]
      by (simp split: sum.splits prod.splits)
  qed
qed

lemma sku_loop_batched:
  assumes "\<forall>idx \<in> set idxs. idx < length cats"
  shows "sku_loop L cats dates t0 idxs s recs =
     (case batched_items L dates t0 (map (\<lambda>i. (i, cats ! i)) idxs) s of
        Inl e \<Rightarrow> Inl e
      | Inr (new, s') \<Rightarrow> Inr (s', recs @ new))"
  using assms
proof (induction idxs arbitrary: s recs)
  case Nil
  show ?case by simp
next
  case (Cons i idxs)
  have i: "\<not> length cats \<le> i" using Cons.prems by simp
  have rest: "\<forall>idx \<in> set idxs. idx < length cats" using Cons.prems by simp
  show ?case
  proof (cases "draw_params L (cats ! i) s")
    case (Inl e)
    then show ?thesis using i by simp
  next
    case (Inr Ps)
    obtain P s1 where Ps: "Ps = (P, s1)" by (cases Ps)
    show ?thesis
    proof (cases "item_days L P t0 (sku_name i) dates s1")
      case (Inl e)
      then show ?thesis using i Inr Ps by (simp add: date_loop_item_days)
    next
      case inner: (Inr rs2)
      obtain rs s2 where rs2: "rs2 = (rs, s2)" by (cases rs2)
      show ?thesis using i Inr Ps inner rs2 Cons.IH [OF rest, of s2 "recs @ rs"]
        by (simp add: date_loop_item_days split: sum.splits prod.splits)
    qed
  qed
qed

subsection \<open>The category draw\<close>

lemma random_samples_length: "length (fst (random_samples L k s)) = k"
proof (induction k arbitrary: s)
  case 0
  show ?case by simp
next
  case (Suc k)
  obtain u s1 where rs: "random_sample L s = (u, s1)" by fastforce
  obtain us s2 where tl: "random_samples L k s1 = (us, s2)" by fastforce
  have "length us = k" using Suc.IH [of s1] tl by simp
  then show ?case using rs tl by simp
qed

lemma pick_categories_length: "pick_categories us = Inr cs \<Longrightarrow> length cs = length us"
  by (induction us arbitrary: cs) (auto split: sum.splits)

lemma choice_length:
  assumes "choice L n s = Inr (cats, s')"
  shows "length cats = nat n"
proof -
  obtain us s1 where rs: "random_samples L (nat n) s = (us, s1)" by fastforce
  have "length us = nat n" using random_samples_length [of L "nat n" s] rs by simp
  moreover have "pick_categories us = Inr cats"
    using assms rs by (auto simp: choice_def split: if_splits sum.splits)
  ultimately show ?thesis using pick_categories_length by fastforce
qed

lemma zip_upt_nth: "length cats = n \<Longrightarrow> zip [0..<n] cats = map (\<lambda>i. (i, cats ! i)) [0..<n]"
  by (rule nth_equalityI) simp_all

lemma random_samples_unit:
  assumes "unit_stream L"
  shows "\<forall>u \<in> set (fst (random_samples L k s)). 0 \<le> u \<and> u < 1"
proof (induction k arbitrary: s)
  case 0
  show ?case by simp
next
  case (Suc k)
  obtain u s1 where rs: "random_sample L s = (u, s1)" by fastforce
  have u: "0 \<le> u \<and> u < 1" using assms rs unfolding unit_stream_def by (metis fst_conv)
  show ?case using rs u Suc.IH [of s1] by (auto split: prod.splits)
qed

lemma pick_category_unit: "u < 1 \<Longrightarrow> \<exists>c. pick_category u = Inr c"
  by (simp add: pick_category_def)

lemma pick_categories_unit: "\<forall>u \<in> set us. u < 1 \<Longrightarrow> \<exists>cs. pick_categories us = Inr cs"
proof (induction us)
  case Nil
  show ?case by simp
next
  case (Cons u us)
  obtain c where "pick_category u = Inr c" using Cons.prems pick_category_unit by fastforce
  moreover obtain cs where "pick_categories us = Inr cs" using Cons by auto
  ultimately show ?case by simp
qed

lemma choice_returns:
  assumes "unit_stream L" and "0 \<le> n"
  shows "\<exists>cats s'. choice L n s = Inr (cats, s')"
proof -
  obtain us s1 where rs: "random_samples L (nat n) s = (us, s1)" by fastforce
  have "\<forall>u \<in> set us. u < 1" using random_samples_unit [OF assms(1), of "nat n" s] rs by simp
  then obtain cs where "pick_categories us = Inr cs" using pick_categories_unit by blast
  then show ?thesis using rs assms(2) by (simp add: choice_def)
qed

subsection \<open>The rows of the items\<close>

lemma item_days_returns:
  assumes "solved P"
  shows "\<exists>rs s'. item_days L P t0 sku ds s = Inr (rs, s')"
proof (induction ds arbitrary: s)
  case Nil
  show ?case by simp
next
  case (Cons d ds)
  obtain lam where "lam_today P t0 d = Inr lam" using lam_today_eq by blast
  then obtain r s1 where "day_body L P t0 sku d s = Inr (r, s1)"
    using day_body_returns [OF assms, of t0 d lam L sku s] by blast
  moreover obtain rs s2 where "item_days L P t0 sku ds s1 = Inr (rs, s2)"
    using Cons [of s1] by blast
  ultimately show ?case by simp
qed

lemma item_days_rows:
  assumes "item_days L P t0 sku ds s = Inr (rs, s')"
  shows "map row_key rs = map (Pair sku) ds \<and> (\<forall>r \<in> set rs. 0 \<le> demand_size r)"
  using assms
proof (induction ds arbitrary: s rs)
  case Nil
  then show ?case by simp
next
  case (Cons d ds)
  from Cons.prems obtain r s1 rs1 where
    db: "day_body L P t0 sku d s = Inr (r, s1)" and
    tl: "item_days L P t0 sku ds s1 = Inr (rs1, s')" and
    rs: "rs = r # rs1"
    by (auto split: sum.splits prod.splits)
  show ?case using day_body_record [OF db] Cons.IH [OF tl] rs by (simp add: row_key_def)
qed

lemma batched_items_returns:
  assumes "unit_stream L"
  shows "\<exists>rs s'. batched_items L dates t0 ics s = Inr (rs, s')"
proof (induction ics arbitrary: s)
  case Nil
  show ?case by simp
next
  case (Cons ic ics)
  obtain i c where ic: "ic = (i, c)" by (cases ic)
  obtain P s1 where dp: "draw_params L c s = Inr (P, s1)"
    using draw_params_returns [OF assms, of c s] by blast
  obtain rs s2 where idy: "item_days L P t0 (sku_name i) dates s1 = Inr (rs, s2)"
    using item_days_returns [OF draw_params_solved [OF dp], of L t0 "sku_name i" dates s1] by blast
  obtain others s3 where "batched_items L dates t0 ics s2 = Inr (others, s3)"
    using Cons [of s2] by blast
  then show ?case using ic dp idy by simp
qed

lemma batched_items_rows:
  assumes "batched_items L dates t0 ics s = Inr (rs, s')"
  shows "map row_key rs = map (\<lambda>(i, d). (sku_name i, d)) (List.product (map fst ics) dates)
     \<and> (\<forall>r \<in> set rs. 0 \<le> demand_size r)"
  using assms
proof (induction ics arbitrary: s rs)
  case Nil
  then show ?case by simp
next
  case (Cons ic ics)
  obtain i c where ic: "ic = (i, c)" by (cases ic)
  from Cons.prems ic obtain P s1 rs1 s2 others where
    dp: "draw_params L c s = Inr (P, s1)" and
    idy: "item_days L P t0 (sku_name i) dates s1 = Inr (rs1, s2)" and
    tl: "batched_items L dates t0 ics s2 = Inr (others, s')" and
    rs: "rs = rs1 @ others"
    by (auto split: sum.splits prod.splits)
  show ?case using item_days_rows [OF idy] Cons.IH [OF tl] rs ic
    by (auto simp: comp_def)
qed

subsection \<open>Item names are distinct\<close>

lemma undecimal_snoc: "undecimal (s @ [c]) = 10 * undecimal s + (of_char c - 48)"
  by (simp add: undecimal_def)

lemma undecimal_decimal: "undecimal (decimal n) = n"
proof (induction n rule: decimal.induct)
  case (1 n)
  show ?case
  proof (cases "n < 10")
    case True
    then show ?thesis by (subst decimal.simps) (simp add: undecimal_def)
  next
    case False
    have "undecimal (decimal n) = 10 * undecimal (decimal (n div 10)) + n mod 10"
      using False by (subst decimal.simps) (simp add: undecimal_snoc)
    then show ?thesis using "1.IH" [OF False] by simp
  qed
qed

lemma undecimal_zeros: "undecimal (replicate k (CHR ''0'') @ s) = undecimal s"
proof -
  have "foldl (\<lambda>a c. 10 * a + (of_char c - 48)) (0::nat) (replicate k (CHR ''0'')) = 0"
    by (induction k) simp_all
  then show ?thesis by (simp add: undecimal_def)
qed

lemma sku_name_inj: "sku_name i = sku_name j \<Longrightarrow> i = j"
proof -
  assume "sku_name i = sku_name j"
  then have "zero_pad 4 (decimal (i + 1)) = zero_pad 4 (decimal (j + 1))"
    by (simp add: sku_name_def)
  then have "undecimal (zero_pad 4 (decimal (i + 1))) = undecimal (zero_pad 4 (decimal (j + 1)))"
    by simp
  then show ?thesis
    by (simp add: zero_pad_def undecimal_zeros undecimal_decimal del: decimal.simps)
qed

subsection \<open>The generated table\<close>

lemma generate_data_unfold:
  "generate_data L n_sku start_date end_date seed =
     (if seed < 0 \<or> 2 ^ 32 \<le> seed then Inl SeedValueError
      else
        (case choice L n_sku (seed_state L seed) of
           Inl e \<Rightarrow> Inl e
         | Inr (categories, s1) \<Rightarrow>
             (case date_range L start_date end_date of
                Inl e \<Rightarrow> Inl e
              | Inr date_idx \<Rightarrow>
                  (case to_datetime L start_date of
                     None \<Rightarrow> Inl DateParseError
                   | Some t0 \<Rightarrow>
                       (case batched_items L date_idx t0 (zip [0..<nat n_sku] categories) s1 of
                          Inl e \<Rightarrow> Inl e
                        | Inr (recs, s2) \<Rightarrow> Inr (sort_values recs))))))"
proof (cases "choice L n_sku (seed_state L seed)")
  case (Inl e)
  then show ?thesis by (simp add: generate_data_def)
next
  case (Inr cs)
  obtain cats s1 where cs: "cs = (cats, s1)" by (cases cs)
  have len: "length cats = nat n_sku" using choice_length Inr cs by fastforce
  have loop: "sku_loop L cats dates t0 [0..<nat n_sku] s1 [] =
     (case batched_items L dates t0 (zip [0..<nat n_sku] cats) s1 of
        Inl e \<Rightarrow> Inl e
      | Inr (new, s') \<Rightarrow> Inr (s', new))" for dates t0
    using sku_loop_batched [of "[0..<nat n_sku]" cats L dates t0 s1 "[]"] len
    by (simp add: zip_upt_nth split: sum.splits prod.splits)
  show ?thesis using Inr cs
    by (simp add: generate_data_def loop split: sum.splits option.splits prod.splits)
qed

lemma generate_data_rows:
  assumes "generate_data L n_sku start_date end_date seed = Inr df"
  shows "\<exists>a b recs. to_datetime L start_date = Some a \<and> to_datetime L end_date = Some b
     \<and> 0 \<le> n_sku \<and> df = sort_values recs
     \<and> map row_key recs = map (\<lambda>(i, d). (sku_name i, d)) (List.product [0..<nat n_sku] (day_steps a b))
     \<and> (\<forall>r \<in> set recs. 0 \<le> demand_size r)"
proof -
  from assms obtain cats s1 dates t0 recs s2 where
    ch: "choice L n_sku (seed_state L seed) = Inr (cats, s1)" and
    dr: "date_range L start_date end_date = Inr dates" and
    bi: "batched_items L dates t0 (zip [0..<nat n_sku] cats) s1 = Inr (recs, s2)" and
    df: "df = sort_values recs"
    unfolding generate_data_unfold
    by (auto split: if_splits sum.splits option.splits prod.splits)
  have len: "length cats = nat n_sku" using choice_length [OF ch] .
  have n: "0 \<le> n_sku" using ch by (auto simp: choice_def split: if_splits)
  from dr obtain a b where ab: "to_datetime L start_date = Some a" "to_datetime L end_date = Some b"
    "dates = day_steps a b"
    by (auto simp: date_range_def split: option.splits)
  have "map fst (zip [0..<nat n_sku] cats) = [0..<nat n_sku]" using len by simp
  then show ?thesis using batched_items_rows [OF bi] ab df n by auto
qed

lemma generate_data_returns:
  assumes "unit_stream L" and "0 \<le> seed" and "seed < 2 ^ 32" and "0 \<le> n_sku"
    and "to_datetime L start_date = Some a" and "to_datetime L end_date = Some b"
  shows "\<exists>df. generate_data L n_sku start_date end_date seed = Inr df"
proof -
  obtain cats s1 where ch: "choice L n_sku (seed_state L seed) = Inr (cats, s1)"
    using choice_returns [OF assms(1,4), of "seed_state L seed"] by blast
  obtain recs s2 where "batched_items L (day_steps a b) a (zip [0..<nat n_sku] cats) s1 = Inr (recs, s2)"
    using batched_items_returns [OF assms(1), of "day_steps a b" a "zip [0..<nat n_sku] cats" s1] by blast
  then show ?thesis using ch assms(2,3,5,6)
    by (simp add: generate_data_unfold date_range_def)
qed

lemma day_steps_length: "length (day_steps a b) = nat ((b - a) div day_ns + 1)"
  by (simp add: day_steps_def)

lemma day_steps_distinct: "distinct (day_steps a b)"
proof -
  have "inj_on (\<lambda>k. a + int k * day_ns) A" for A
    by (rule inj_onI) (simp add: day_ns_def)
  then show ?thesis by (simp add: day_steps_def distinct_map)
qed

lemma day_steps_empty: "b < a \<Longrightarrow> day_steps a b = []"
proof -
  assume "b < a"
  then have "(b - a) div day_ns < 0" by (simp add: day_ns_def div_neg_pos_less0)
  then show ?thesis by (simp add: day_steps_def)
qed

lemma keys_distinct:
  "distinct (map (\<lambda>(i, d). (sku_name i, d)) (List.product [0..<n] (day_steps a b)))"
proof -
  have "inj_on (\<lambda>(i, d). (sku_name i, d)) (set (List.product [0..<n] (day_steps a b)))"
    by (auto simp: inj_on_def dest: sku_name_inj)
  moreover have "distinct (List.product [0..<n] (day_steps a b))"
    by (simp add: distinct_product day_steps_distinct)
  ultimately show ?thesis by (simp add: distinct_map)
qed

lemma sort_values_keys:
  "sorted (map row_key (sort_values recs))
   \<and> (distinct (map row_key (sort_values recs)) \<longleftrightarrow> distinct (map row_key recs))
   \<and> length (sort_values recs) = length recs \<and> set (sort_values recs) = set recs"
proof -
  have eq: "row_key = (\<lambda>r. (material r, demand_date r))" by (rule ext) (simp add: row_key_def)
  show ?thesis unfolding sort_values_def eq by (simp add: distinct_map)
qed

lemma sort_values_filter:
  "length (filter Q (sort_values recs)) = length (filter Q recs)"
  by (simp add: sort_values_def filter_sort)

subsection \<open>The code draws in the stated order\<close>

lemma spec_rate_eq: "lam_today P t0 d = Inr (spec_rate P t0 d)"
proof -
  have "weekday d \<in> {0, 1, 2, 3, 4, 5, 6}" using weekday_range [of d] by (simp, arith)
  then show ?thesis by (auto simp: lam_today_eq spec_rate_def Let_def)
qed

lemma spec_params_eq: "draw_params L cat s = spec_params L cat s"
  by (cases cat) (auto simp: draw_params_def spec_params_def Let_def split: prod.splits sum.splits)

lemma spec_day_eq: "day_body L P t0 sku d s = spec_day L P t0 sku d s"
proof -
  obtain u s1 where rs: "random_sample L s = (u, s1)" by (cases "random_sample L s")
  show ?thesis
  proof (cases "nb P")
    case None
    then show ?thesis using rs
      by (simp add: day_body_def spec_day_def spec_rate_eq Let_def split: sum.splits prod.splits)
  next
    case (Some rp)
    obtain r p where "rp = (r, p)" by (cases rp)
    then show ?thesis using rs Some
      by (simp add: day_body_def spec_day_def spec_rate_eq Let_def split: sum.splits prod.splits)
  qed
qed

lemma spec_days_eq: "item_days L P t0 sku ds s = spec_days L P t0 sku ds s"
proof (induction ds arbitrary: s)
  case Nil
  show ?case by simp
next
  case (Cons d ds)
  show ?case
  proof (cases "spec_day L P t0 sku d s")
    case (Inl e)
    then show ?thesis by (simp add: spec_day_eq)
  next
    case (Inr rs)
    obtain r s1 where "rs = (r, s1)" by (cases rs)
    then show ?thesis using Inr Cons.IH [of s1] by (simp add: spec_day_eq)
  qed
qed

lemma spec_item_eq:
  "spec_item L dates t0 idx cat s =
     (case draw_params L cat s of
        Inl e \<Rightarrow> Inl e
      | Inr (P, s1) \<Rightarrow> item_days L P t0 (sku_name idx) dates s1)"
  by (simp add: spec_item_def spec_params_eq spec_days_eq split: sum.splits prod.splits)

lemma batched_order_eq: "batched_items L dates t0 ics s = batched_order L dates t0 ics s"
proof (induction ics arbitrary: s)
  case Nil
  show ?case by simp
next
  case (Cons ic ics)
  obtain i c where ic: "ic = (i, c)" by (cases ic)
  show ?case
  proof (cases "draw_params L c s")
    case (Inl e)
    then show ?thesis using ic by (simp add: spec_item_eq)
  next
    case (Inr Ps)
    obtain P s1 where Ps: "Ps = (P, s1)" by (cases Ps)
    show ?thesis
    proof (cases "item_days L P t0 (sku_name i) dates s1")
      case (Inl e)
      then show ?thesis using ic Inr Ps by (simp add: spec_item_eq)
    next
      case inner: (Inr rs2)
      obtain rs s2 where "rs2 = (rs, s2)" by (cases rs2)
      then show ?thesis using ic Inr Ps inner Cons.IH [of s2] by (simp add: spec_item_eq)
    qed
  qed
qed

subsection \<open>The concrete library evaluated\<close>

lemma counting_simps:
  "seed_state counting x = 0" "random_sample counting s = (1 / 10, Suc s)"
  "randint_draw counting lo hi s = (lo, Suc s)" "poisson_draw counting mu s = (int s, Suc s)"
  "nbinom_draw counting n p s = (int s, Suc s)" "to_datetime counting = demo_calendar"
  by (simp_all add: counting_def)

lemma counting_unit: "unit_stream counting"
  by (simp add: unit_stream_def counting_simps)

lemma demo_calendar_simps:
  "demo_calendar ''2023-01-01'' = Some (at_day 738521 0)"
  "demo_calendar ''2023-01-02'' = Some (at_day 738522 0)"
  "demo_calendar ''2023-07-03'' = Some (at_day 738704 0)"
  "demo_calendar ''2023-01-01 18:00'' = Some (at_day 738521 64800)"
  "demo_calendar ''yesterday'' = None"
  by (simp_all add: demo_calendar_def)

lemma toordinal_at_day:
  assumes "0 \<le> seconds" and "seconds < 86400"
  shows "toordinal (at_day ordinal seconds) = ordinal"
proof -
  have "0 \<le> seconds * 1000000000" "seconds * 1000000000 < day_ns"
    using assms by (simp_all add: day_ns_def)
  then have "(seconds * 1000000000) div day_ns = 0" by simp
  moreover have "((ordinal - 719163) * day_ns + seconds * 1000000000) div day_ns =
      (ordinal - 719163) + (seconds * 1000000000) div day_ns"
    by (simp add: day_ns_def)
  ultimately show ?thesis by (simp add: toordinal_def at_day_def)
qed

lemma day_steps_same: "day_steps a a = [a]"
  by (simp add: day_steps_def)

lemma smooth_sku_simps:
  "lam_daily smooth_sku = 73 / 100" "peak_year smooth_sku = 1" "decay smooth_sku = 6 / 100"
  "mean_size smooth_sku = 19 / 10" "cv_size smooth_sku = 33 / 100" "nb smooth_sku = None"
  by (simp_all add: smooth_sku_def)

lemma counting_draw_smooth: "draw_params counting Smooth s = Inr (smooth_sku, s + 5)"
  by (simp add: draw_params_def uniform_def counting_simps nb_params_def power2_eq_square
      smooth_sku_def)

lemma ord2ym_20230101: "ord2ym 738521 = (2023, 1)"
  by (simp add: ord2ym_def Let_def days_before_month_def)

lemma lam_today_demo:
  "lam_today smooth_sku (at_day 738521 0) (at_day 738521 0) = Inr (292 / 1000)"
  by (simp add: lam_today_eq year_of_def month_of_def toordinal_at_day ord2ym_20230101
      weekday_def smooth_sku_simps)

lemma counting_day:
  "day_body counting smooth_sku (at_day 738521 0) sku (at_day 738521 0) s =
     Inr (\<lparr>demand_date = at_day 738521 0, material = sku, demand_size = int (Suc s)\<rparr>,
          Suc (Suc s))"
  by (simp add: day_body_def lam_today_demo counting_simps poisson_rvs_def smooth_sku_simps)

lemma sku_names: "sku_name 0 = ''SKU-0001''" "sku_name (Suc 0) = ''SKU-0002''"
  by code_simp+

lemma sort_two:
  "sort_values [\<lparr>demand_date = d, material = ''SKU-0001'', demand_size = x\<rparr>,
                \<lparr>demand_date = d, material = ''SKU-0002'', demand_size = y\<rparr>] =
     [\<lparr>demand_date = d, material = ''SKU-0001'', demand_size = x\<rparr>,
      \<lparr>demand_date = d, material = ''SKU-0002'', demand_size = y\<rparr>]"
  by (simp add: sort_values_def)

lemma choice_counting_2: "choice counting 2 s = Inr ([Smooth, Smooth], Suc (Suc s))"
  by (simp add: choice_def numeral_2_eq_2 counting_simps pick_category_def)

lemma counting_table:
  "generate_data counting 2 ''2023-01-01'' ''2023-01-01'' 42 =
     Inr [\<lparr>demand_date = at_day 738521 0, material = ''SKU-0001'', demand_size = 8\<rparr>,
          \<lparr>demand_date = at_day 738521 0, material = ''SKU-0002'', demand_size = 15\<rparr>]"
  by (simp add: generate_data_unfold counting_simps(1,6) demo_calendar_simps date_range_def
      day_steps_same choice_counting_2 numeral_2_eq_2 counting_draw_smooth counting_day
      sku_names sort_two)

lemma counting_per_item_table:
  "per_item_reference counting 2 ''2023-01-01'' ''2023-01-01'' 42 =
     Inr [\<lparr>demand_date = at_day 738521 0, material = ''SKU-0001'', demand_size = 7\<rparr>,
          \<lparr>demand_date = at_day 738521 0, material = ''SKU-0002'', demand_size = 15\<rparr>]"
  by (simp add: per_item_reference_def counting_simps demo_calendar_simps date_range_def
      day_steps_same numeral_2_eq_2 pick_category_def spec_item_eq counting_draw_smooth
      counting_day sku_names sort_two)

lemma at_day_order: "at_day 738521 0 < at_day 738522 0" "at_day 738521 0 < at_day 738521 64800"
  "at_day 738521 64800 < at_day 738522 0"
  by (simp_all add: at_day_def day_ns_def)

lemma counting_empty_window:
  "generate_data counting 1 ''2023-01-02'' ''2023-01-01'' 42 = Inr []"
  by (simp add: generate_data_unfold counting_simps demo_calendar_simps date_range_def
      day_steps_empty at_day_order choice_def pick_category_def counting_draw_smooth
      sort_values_def)

lemma counting_no_items:
  "generate_data counting 0 ''2023-01-01'' ''2023-01-02'' 42 = Inr []"
  by (simp add: generate_data_unfold counting_simps demo_calendar_simps date_range_def
      choice_def sort_values_def)

subsection \<open>The occurrence probability\<close>

text \<open>
  Claim C4. For every item and every calendar day, the probability the gate compares
  the uniform draw with is the daily rate times the ageing factor
  \<open>max (1 - decay * max (year - start year - peak year) 0) 0.1\<close>, times the day-of-week
  factor (1 on Monday to Friday, weekdays 0 to 4; 0.6 on Saturday; 0.4 on Sunday), times
  the seasonal factor (1.25 in July and December, 1 otherwise). The ageing factor is never
  below one tenth.
\<close>

theorem effective_rate_formula:
  "lam_today P t0 d =
     Inr (lam_daily P
          * max (1 - decay P * of_int (max (year_of d - year_of t0 - peak_year P) 0)) (1 / 10)
          * (if weekday d \<in> {0, 1, 2, 3, 4} then 1 else if weekday d = 5 then 6 / 10 else 4 / 10)
          * (if month_of d = 7 \<or> month_of d = 12 then 125 / 100 else 1))
   \<and> weekday d \<in> {0, 1, 2, 3, 4, 5, 6}
   \<and> 1 / 10 \<le> max (1 - decay P * of_int (max (year_of d - year_of t0 - peak_year P) 0)) (1 / 10)
   \<and> (solved P \<longrightarrow>
        (\<exists>lam r s'. lam_today P t0 d = Inr lam \<and> day_body L P t0 sku d s = Inr (r, s')
           \<and> (demand_size r \<noteq> 0 \<longleftrightarrow> fst (random_sample L s) < lam)))"
proof (intro conjI impI)
  have wd: "weekday d \<in> {0, 1, 2, 3, 4, 5, 6}" using weekday_range [of d] by (simp, arith)
  then show "weekday d \<in> {0, 1, 2, 3, 4, 5, 6}" .
  have "(weekday d \<in> {0, 1, 2, 3, 4}) = (weekday d \<le> 4)" using wd by auto
  then show "lam_today P t0 d =
     Inr (lam_daily P
          * max (1 - decay P * of_int (max (year_of d - year_of t0 - peak_year P) 0)) (1 / 10)
          * (if weekday d \<in> {0, 1, 2, 3, 4} then 1 else if weekday d = 5 then 6 / 10 else 4 / 10)
          * (if month_of d = 7 \<or> month_of d = 12 then 125 / 100 else 1))"
    by (simp only: lam_today_eq)
  show "1 / 10 \<le> max (1 - decay P * of_int (max (year_of d - year_of t0 - peak_year P) 0)) (1 / 10)"
    by simp
next
  assume sol: "solved P"
  obtain lam where lam: "lam_today P t0 d = Inr lam" using lam_today_eq by blast
  from day_body_returns [OF sol lam, of L sku s]
  show "\<exists>lam r s'. lam_today P t0 d = Inr lam \<and> day_body L P t0 sku d s = Inr (r, s')
           \<and> (demand_size r \<noteq> 0 \<longleftrightarrow> fst (random_sample L s) < lam)"
    using lam by blast
qed

lemma ord2ym_20230701: "ord2ym 738702 = (2023, 7)"
  by (simp add: ord2ym_def Let_def days_before_month_def)

lemma saturday_sku_simps:
  "lam_daily saturday_sku = 8 / 10" "peak_year saturday_sku = 1" "decay saturday_sku = 0"
  "mean_size saturday_sku = 4" "cv_size saturday_sku = 3 / 10" "nb saturday_sku = None"
  by (simp_all add: saturday_sku_def)

lemma saturday_sku_solved: "solved saturday_sku"
  by (simp add: solved_def saturday_sku_simps nb_params_def power2_eq_square)

theorem effective_rate_formula_witness:
  "solved saturday_sku \<and> weekday (at_day 738702 0) = 5 \<and> month_of (at_day 738702 0) = 7
   \<and> lam_today saturday_sku (at_day 738521 0) (at_day 738702 0) = Inr (8 / 10 * (6 / 10) * (125 / 100))
   \<and> (\<exists>r s'. day_body counting saturday_sku (at_day 738521 0) ''SKU-0001'' (at_day 738702 0) 0 = Inr (r, s')
         \<and> demand_size r \<noteq> 0)"
proof -
  have wd: "weekday (at_day 738702 0) = 5" by (simp add: weekday_def toordinal_at_day)
  have mo: "month_of (at_day 738702 0) = 7" by (simp add: month_of_def toordinal_at_day ord2ym_20230701)
  note f = effective_rate_formula [of saturday_sku "at_day 738521 0" "at_day 738702 0" counting "''SKU-0001''" 0]
  have lam: "lam_today saturday_sku (at_day 738521 0) (at_day 738702 0) = Inr (8 / 10 * (6 / 10) * (125 / 100))"
    using f by (simp add: wd mo saturday_sku_simps)
  from f saturday_sku_solved obtain lam' r s' where
    h: "lam_today saturday_sku (at_day 738521 0) (at_day 738702 0) = Inr lam'"
      "day_body counting saturday_sku (at_day 738521 0) ''SKU-0001'' (at_day 738702 0) 0 = Inr (r, s')"
      "demand_size r \<noteq> 0 \<longleftrightarrow> fst (random_sample counting 0) < lam'"
    by blast
  have "lam' = 8 / 10 * (6 / 10) * (125 / 100)" using h(1) lam by simp
  then have "demand_size r \<noteq> 0" using h(3) by (simp add: counting_simps)
  then show ?thesis using saturday_sku_solved wd mo lam h(2) by blast
qed

subsection \<open>A saturated gate\<close>

text \<open>
  Claim C7. On an item-day whose effective rate is at least 1 an occurrence is certain:
  the uniform draw is below 1, the rate is compared without being clamped, and the
  quantity is at least 1.
\<close>

theorem saturated_gate_always_occurs:
  assumes "unit_stream L" and "solved P" and "lam_today P t0 d = Inr lam" and "1 \<le> lam"
  shows "fst (random_sample L s) < lam
     \<and> (\<exists>r s'. day_body L P t0 sku d s = Inr (r, s') \<and> 1 \<le> demand_size r)"
proof -
  have "fst (random_sample L s) < 1" using assms(1) by (simp add: unit_stream_def)
  then have u: "fst (random_sample L s) < lam" using assms(4) by linarith
  from day_body_returns [OF assms(2,3), of L sku s] u show ?thesis by blast
qed

lemma ord2ym_20230703: "ord2ym 738704 = (2023, 7)"
  by (simp add: ord2ym_def Let_def days_before_month_def)

lemma july_sku_simps:
  "lam_daily july_sku = 9 / 10" "peak_year july_sku = 1" "decay july_sku = 1 / 10"
  "mean_size july_sku = 4" "cv_size july_sku = 3 / 10" "nb july_sku = None"
  by (simp_all add: july_sku_def)

lemma july_sku_solved: "solved july_sku"
  by (simp add: solved_def july_sku_simps nb_params_def power2_eq_square)

lemma july_sku_rate: "lam_today july_sku (at_day 738521 0) (at_day 738704 0) = Inr (1125 / 1000)"
  by (simp add: lam_today_eq year_of_def month_of_def toordinal_at_day ord2ym_20230101
      ord2ym_20230703 weekday_def july_sku_simps)

theorem saturated_gate_always_occurs_witness:
  "unit_stream counting \<and> solved july_sku
   \<and> lam_today july_sku (at_day 738521 0) (at_day 738704 0) = Inr (1125 / 1000) \<and> (1::real) \<le> 1125 / 1000
   \<and> (\<exists>r s'. day_body counting july_sku (at_day 738521 0) ''SKU-0001'' (at_day 738704 0) 0 = Inr (r, s')
         \<and> 1 \<le> demand_size r)"
proof -
  have one: "(1::real) \<le> 1125 / 1000" by simp
  from saturated_gate_always_occurs [OF counting_unit july_sku_solved july_sku_rate one,
      of 0 "''SKU-0001''"]
  show ?thesis using counting_unit july_sku_solved july_sku_rate one by blast
qed

subsection \<open>Quantities\<close>

lemma day_body_occurrence:
  assumes "solved P" and "lam_today P t0 d = Inr lam" and "fst (random_sample L s) < lam"
  shows "\<exists>r s'. day_body L P t0 sku d s = Inr (r, s')
     \<and> demand_size r = max 1 (fst (case nb P of
          None \<Rightarrow> poisson_draw L (mean_size P) (snd (random_sample L s))
        | Some (r_nb, p_nb) \<Rightarrow> nbinom_draw L r_nb p_nb (snd (random_sample L s))))"
proof -
  obtain u s1 where rs: "random_sample L s = (u, s1)" by (cases "random_sample L s")
  show ?thesis
  proof (cases "nb P")
    case None
    then have "0 \<le> mean_size P" using assms(1) nb_params_None_mean unfolding solved_def by metis
    then show ?thesis using None rs assms(2,3)
      by (simp add: day_body_def poisson_rvs_def split: prod.splits)
  next
    case (Some rp)
    obtain r p where rp: "rp = (r, p)" by (cases rp)
    have np: "nb_params (mean_size P) (cv_size P) = Inr (Some (r, p))"
      using assms(1) Some rp by (simp add: solved_def)
    have "0 < r" using nb_params_r_pos [OF np] .
    moreover have "0 < p \<and> p \<le> 1" using nb_params_p_range [OF np] by simp
    ultimately show ?thesis using Some rp rs assms(2,3)
      by (simp add: day_body_def nbinom_rvs_def split: prod.splits)
  qed
qed

text \<open>
  Claim C3. The quantity of every record is a non-negative integer. On each day it is 0
  exactly when the uniform draw is not below the effective rate; when the draw is below
  the rate, the quantity is the larger of 1 and the drawn size, hence at least 1.
\<close>

theorem quantity_invariant:
  "(solved P \<longrightarrow>
      (\<exists>lam r s'. lam_today P t0 d = Inr lam \<and> day_body L P t0 sku d s = Inr (r, s')
         \<and> 0 \<le> demand_size r
         \<and> (demand_size r = 0 \<longleftrightarrow> lam \<le> fst (random_sample L s))
         \<and> (fst (random_sample L s) < lam \<longrightarrow>
              1 \<le> demand_size r
              \<and> demand_size r = max 1 (fst (case nb P of
                   None \<Rightarrow> poisson_draw L (mean_size P) (snd (random_sample L s))
                 | Some (r_nb, p_nb) \<Rightarrow> nbinom_draw L r_nb p_nb (snd (random_sample L s)))))))
   \<and> (generate_data L n_sku start_date end_date seed = Inr df \<longrightarrow>
        (\<forall>r \<in> set df. 0 \<le> demand_size r))"
proof (intro conjI impI)
  assume sol: "solved P"
  obtain lam where lam: "lam_today P t0 d = Inr lam" using lam_today_eq by blast
  obtain r s' where db: "day_body L P t0 sku d s = Inr (r, s')"
    and zero: "demand_size r = 0 \<longleftrightarrow> \<not> fst (random_sample L s) < lam"
    and occ: "fst (random_sample L s) < lam \<longrightarrow> 1 \<le> demand_size r"
    using day_body_returns [OF sol lam, of L sku s] by blast
  have nonneg: "0 \<le> demand_size r" using day_body_record [OF db] by simp
  have "fst (random_sample L s) < lam \<longrightarrow>
      demand_size r = max 1 (fst (case nb P of
          None \<Rightarrow> poisson_draw L (mean_size P) (snd (random_sample L s))
        | Some (r_nb, p_nb) \<Rightarrow> nbinom_draw L r_nb p_nb (snd (random_sample L s))))"
    using day_body_occurrence [OF sol lam, of L s sku] db by auto
  then show "\<exists>lam r s'. lam_today P t0 d = Inr lam \<and> day_body L P t0 sku d s = Inr (r, s')
         \<and> 0 \<le> demand_size r
         \<and> (demand_size r = 0 \<longleftrightarrow> lam \<le> fst (random_sample L s))
         \<and> (fst (random_sample L s) < lam \<longrightarrow>
              1 \<le> demand_size r
              \<and> demand_size r = max 1 (fst (case nb P of
                   None \<Rightarrow> poisson_draw L (mean_size P) (snd (random_sample L s))
                 | Some (r_nb, p_nb) \<Rightarrow> nbinom_draw L r_nb p_nb (snd (random_sample L s)))))"
    using lam db nonneg zero occ by (metis not_less)
next
  assume "generate_data L n_sku start_date end_date seed = Inr df"
  then obtain recs where "df = sort_values recs" and "\<forall>r \<in> set recs. 0 \<le> demand_size r"
    using generate_data_rows by blast
  then show "\<forall>r \<in> set df. 0 \<le> demand_size r" using sort_values_keys [of recs] by simp
qed

lemma smooth_sku_solved: "solved smooth_sku"
  by (simp add: solved_def smooth_sku_simps nb_params_def power2_eq_square)

theorem quantity_invariant_witness:
  "solved smooth_sku
   \<and> day_body counting smooth_sku (at_day 738521 0) ''SKU-0001'' (at_day 738521 0) 7 =
       Inr (\<lparr>demand_date = at_day 738521 0, material = ''SKU-0001'', demand_size = 8\<rparr>, 9)
   \<and> generate_data counting 2 ''2023-01-01'' ''2023-01-01'' 42 =
       Inr [\<lparr>demand_date = at_day 738521 0, material = ''SKU-0001'', demand_size = 8\<rparr>,
            \<lparr>demand_date = at_day 738521 0, material = ''SKU-0002'', demand_size = 15\<rparr>]
   \<and> list_all (\<lambda>r. 0 \<le> demand_size r)
        [\<lparr>demand_date = at_day 738521 0, material = ''SKU-0001'', demand_size = 8\<rparr>,
         \<lparr>demand_date = at_day 738521 0, material = ''SKU-0002'', demand_size = 15\<rparr>]"
proof -
  note q = quantity_invariant [of smooth_sku "at_day 738521 0" "at_day 738521 0" counting "''SKU-0001''" 7 2
      "''2023-01-01''" "''2023-01-01''" 42
      "[\<lparr>demand_date = at_day 738521 0, material = ''SKU-0001'', demand_size = 8\<rparr>,
        \<lparr>demand_date = at_day 738521 0, material = ''SKU-0002'', demand_size = 15\<rparr>]"]
  have day: "day_body counting smooth_sku (at_day 738521 0) ''SKU-0001'' (at_day 738521 0) 7 =
       Inr (\<lparr>demand_date = at_day 738521 0, material = ''SKU-0001'', demand_size = 8\<rparr>, 9)"
    by (simp add: counting_day)
  from q smooth_sku_solved counting_table day show ?thesis by (simp add: list_all_iff)
qed

subsection \<open>Sparse items\<close>

lemma sparse_rate:
  assumes "unit_stream L" and "uniform L (- (35 / 10)) (- 1) s = (x, s')"
  shows "0 < 10 powr x \<and> 10 powr x \<le> 1 / 10"
proof -
  have "x \<le> - 1" using uniform_range [OF assms(1) _ assms(2)] by simp
  then have "(10::real) powr x \<le> 10 powr (- 1)" by (intro powr_mono) simp_all
  moreover have "(10::real) powr (- 1) = 1 / 10" by (simp add: powr_neg_one)
  ultimately show ?thesis by simp
qed

lemma draw_params_ranges:
  assumes "unit_stream L" and "draw_params L cat s = Inr (P, s')"
  shows "0 \<le> decay P \<and> 0 < lam_daily P \<and> lam_daily P \<le> 1
     \<and> (cat = Slow \<or> cat = Lumpy \<longrightarrow> lam_daily P \<le> 1 / 10)"
proof -
  obtain lam s1 where a: "(if cat = Smooth \<or> cat = Erratic then uniform L (7 / 10) 1 s
            else (case uniform L (- (35 / 10)) (- 1) s of (x, s') \<Rightarrow> (10 powr x, s'))) = (lam, s1)"
    by fastforce
  obtain py s2 where b: "randint_draw L 1 4 s1 = (py, s2)" by fastforce
  obtain dc s3 where c: "uniform L (5 / 100) (15 / 100) s2 = (dc, s3)" by fastforce
  have P: "lam_daily P = lam" "decay P = dc"
    using assms(2) a b c by (auto simp: draw_params_def split: prod.splits sum.splits)
  have dc: "0 \<le> dc" using uniform_range [OF assms(1) _ c] by simp
  have lam: "0 < lam \<and> lam \<le> 1 \<and> (cat = Slow \<or> cat = Lumpy \<longrightarrow> lam \<le> 1 / 10)"
  proof (cases "cat = Smooth \<or> cat = Erratic")
    case True
    then have "uniform L (7 / 10) 1 s = (lam, s1)" using a by simp
    from uniform_range [OF assms(1) _ this] True show ?thesis by auto
  next
    case False
    obtain x sx where u: "uniform L (- (35 / 10)) (- 1) s = (x, sx)" by fastforce
    have "lam = 10 powr x" using a False u by simp
    then show ?thesis using sparse_rate [OF assms(1) u] by simp
  qed
  show ?thesis using P dc lam by simp
qed

lemma product_le:
  fixes x y c e :: real
  assumes "0 \<le> x" and "x \<le> c" and "0 \<le> y" and "y \<le> e"
  shows "x * y \<le> c * e"
  using mult_mono [of x c y e] assms by linarith

lemma rate_bound:
  fixes lam dc :: real
  assumes "0 \<le> lam" and "lam \<le> b" and "0 \<le> dc"
  shows "lam * max (1 - dc * of_int (max k 0)) (1 / 10)
      * (if wd \<le> (4::int) then 1 else if wd = 5 then 6 / 10 else 4 / 10)
      * (if m = (7::int) \<or> m = 12 then 125 / 100 else 1) \<le> b * (125 / 100)"
proof -
  let ?a = "max (1 - dc * of_int (max k 0)) (1 / 10)"
  let ?w = "if wd \<le> (4::int) then 1 else if wd = 5 then 6 / 10 else (4 / 10 :: real)"
  let ?q = "if m = (7::int) \<or> m = 12 then 125 / 100 else (1::real)"
  have "0 \<le> dc * of_int (max k 0)" using assms(3) by simp
  then have a: "0 \<le> ?a" "?a \<le> 1" by simp_all
  have w: "0 \<le> ?w" "?w \<le> 1" by simp_all
  have q: "0 \<le> ?q" "?q \<le> 125 / 100" by simp_all
  have b: "0 \<le> b" using assms(1,2) by linarith
  have la: "lam * ?a \<le> b * 1" using assms(1,2) a by (rule product_le)
  have la0: "0 \<le> lam * ?a" using assms(1) a(1) by (rule mult_nonneg_nonneg)
  have law: "lam * ?a * ?w \<le> b * 1 * 1" using la0 la w by (rule product_le)
  have law0: "0 \<le> lam * ?a * ?w" using la0 w(1) by (rule mult_nonneg_nonneg)
  have "lam * ?a * ?w * ?q \<le> b * 1 * 1 * (125 / 100)" using law0 law q by (rule product_le)
  then show ?thesis by simp
qed

text \<open>
  Claim C10. For an item of category slow or lumpy the daily rate is a power of ten with
  exponent at most \<open>-1\<close>, hence at most 0.1, and the effective rate is at most 0.125 on
  every day; an effective rate of 1 or more occurs only for smooth and erratic items.
\<close>

theorem sparse_items_never_saturate:
  assumes "unit_stream L"
  shows "\<exists>P s'. draw_params L cat s = Inr (P, s')
     \<and> (\<forall>t0 d. \<exists>lam. lam_today P t0 d = Inr lam
           \<and> (cat = Slow \<or> cat = Lumpy \<longrightarrow>
                lam_daily P \<le> 1 / 10 \<and> lam \<le> 125 / 1000 \<and> lam < 1)
           \<and> (1 \<le> lam \<longrightarrow> cat = Smooth \<or> cat = Erratic))"
proof -
  obtain P s' where dp: "draw_params L cat s = Inr (P, s')"
    using draw_params_returns [OF assms, of cat s] by blast
  have r: "0 \<le> decay P" "0 < lam_daily P" "cat = Slow \<or> cat = Lumpy \<longrightarrow> lam_daily P \<le> 1 / 10"
    using draw_params_ranges [OF assms dp] by simp_all
  have "\<exists>lam. lam_today P t0 d = Inr lam
           \<and> (cat = Slow \<or> cat = Lumpy \<longrightarrow>
                lam_daily P \<le> 1 / 10 \<and> lam \<le> 125 / 1000 \<and> lam < 1)
           \<and> (1 \<le> lam \<longrightarrow> cat = Smooth \<or> cat = Erratic)" for t0 d
  proof -
    let ?lam = "lam_daily P
          * max (1 - decay P * of_int (max (year_of d - year_of t0 - peak_year P) 0)) (1 / 10)
          * (if weekday d \<le> 4 then 1 else if weekday d = 5 then 6 / 10 else 4 / 10)
          * (if month_of d = 7 \<or> month_of d = 12 then 125 / 100 else 1)"
    have eq: "lam_today P t0 d = Inr ?lam" by (rule lam_today_eq)
    have sparse: "?lam \<le> 125 / 1000" if "cat = Slow \<or> cat = Lumpy"
    proof -
      have "lam_daily P \<le> 1 / 10" using r(3) that by simp
      from rate_bound [OF _ this r(1), of "year_of d - year_of t0 - peak_year P" "weekday d" "month_of d"] r(2)
      show ?thesis by simp
    qed
    have "cat = Smooth \<or> cat = Erratic" if "1 \<le> ?lam"
    proof (rule ccontr)
      assume "\<not> (cat = Smooth \<or> cat = Erratic)"
      then have "cat = Slow \<or> cat = Lumpy" by (cases cat) simp_all
      from sparse [OF this] that show False by linarith
    qed
    moreover have "lam_daily P \<le> 1 / 10 \<and> ?lam \<le> 125 / 1000 \<and> ?lam < 1" if "cat = Slow \<or> cat = Lumpy"
      using sparse [OF that] r(3) that by linarith
    ultimately show ?thesis using eq by blast
  qed
  then show ?thesis using dp by blast
qed

theorem sparse_items_never_saturate_witness:
  "unit_stream counting
   \<and> (\<exists>P s'. draw_params counting Slow 0 = Inr (P, s') \<and> lam_daily P \<le> 1 / 10
        \<and> (\<exists>lam. lam_today P (at_day 738521 0) (at_day 738704 0) = Inr lam \<and> lam \<le> 125 / 1000 \<and> lam < 1))"
proof -
  from sparse_items_never_saturate [OF counting_unit, of Slow 0]
  obtain P s' where h: "draw_params counting Slow 0 = Inr (P, s')"
    "\<forall>t0 d. \<exists>lam. lam_today P t0 d = Inr lam
           \<and> (Slow = Slow \<or> Slow = Lumpy \<longrightarrow>
                lam_daily P \<le> 1 / 10 \<and> lam \<le> 125 / 1000 \<and> lam < 1)
           \<and> (1 \<le> lam \<longrightarrow> Slow = Smooth \<or> Slow = Erratic)"
    by blast
  from h(2) obtain lam where "lam_today P (at_day 738521 0) (at_day 738704 0) = Inr lam"
    "lam_daily P \<le> 1 / 10 \<and> lam \<le> 125 / 1000 \<and> lam < 1"
    by blast
  then show ?thesis using counting_unit h(1) by blast
qed

subsection \<open>Row count\<close>

lemma one_row_per_key:
  assumes "map row_key recs = map (\<lambda>(i, d). (sku_name i, d)) (List.product [0..<n] (day_steps a b))"
    and "idx < n" and "d \<in> set (day_steps a b)"
  shows "length (filter (\<lambda>r. material r = sku_name idx \<and> demand_date r = d) recs) = 1"
proof -
  let ?k = "(sku_name idx, d)"
  let ?keys = "map row_key recs"
  have sel: "(\<lambda>r. material r = sku_name idx \<and> demand_date r = d) = (\<lambda>k. k = ?k) \<circ> row_key"
    by (rule ext) (auto simp: row_key_def)
  have "length (filter (\<lambda>r. material r = sku_name idx \<and> demand_date r = d) recs) =
      length (filter (\<lambda>k. k = ?k) ?keys)"
    unfolding sel by (simp add: filter_map)
  also have "\<dots> = card ({k. k = ?k} \<inter> set ?keys)"
    using keys_distinct [of n a b] unfolding assms(1) by (rule distinct_length_filter)
  also have "{k. k = ?k} \<inter> set ?keys = {?k}"
  proof -
    have "(idx, d) \<in> set (List.product [0..<n] (day_steps a b))" using assms(2,3) by simp
    then have "?k \<in> set ?keys" unfolding assms(1) by force
    then show ?thesis by auto
  qed
  finally show ?thesis by simp
qed

lemma div_le_step:
  fixes k x D :: int
  assumes "0 < D" and "k * D \<le> x"
  shows "k \<le> x div D"
proof -
  have "(k * D) div D \<le> x div D" using assms(2,1) by (rule zdiv_mono1)
  moreover have "(k * D) div D = k" using assms(1) by simp
  ultimately show ?thesis by simp
qed

lemma sub_div:
  fixes a b D :: int
  assumes "0 < D" and "a mod D \<le> b mod D"
  shows "(b - a) div D = b div D - a div D"
proof -
  define r where "r = b mod D - a mod D"
  define q where "q = b div D - a div D"
  have r: "0 \<le> r" "r < D"
    using assms(2) pos_mod_bound [OF assms(1), of b] pos_mod_sign [OF assms(1), of a]
    unfolding r_def by linarith+
  have b: "b = b div D * D + b mod D" by simp
  have a: "a = a div D * D + a mod D" by simp
  have "b - a = (b div D * D + b mod D) - (a div D * D + a mod D)" using a b by linarith
  also have "\<dots> = q * D + r" unfolding q_def r_def by (simp only: left_diff_distrib)
  finally have "(b - a) div D = (q * D + r) div D" by simp
  also have "\<dots> = q + r div D" using assms(1) by simp
  also have "r div D = 0" using r by simp
  finally show ?thesis by (simp add: q_def)
qed

lemma day_steps_member:
  assumes "0 \<le> k" and "a + k * day_ns \<le> b"
  shows "a + k * day_ns \<in> set (day_steps a b)"
proof -
  have pos: "0 < day_ns" by (simp add: day_ns_def)
  have "k * day_ns \<le> b - a" using assms(2) by simp
  then have "k \<le> (b - a) div day_ns" using pos by (intro div_le_step)
  then have "nat k \<in> set [0..<nat ((b - a) div day_ns + 1)]" using assms(1) by simp
  then have "(\<lambda>k. a + int k * day_ns) (nat k) \<in> set (day_steps a b)"
    unfolding day_steps_def set_map by (rule imageI)
  moreover have "int (nat k) = k" using assms(1) by simp
  ultimately show ?thesis by (simp only:)
qed

lemma whole_days:
  assumes "a mod day_ns \<le> b mod day_ns"
  shows "(b - a) div day_ns + 1 = toordinal b - toordinal a + 1"
proof -
  have pos: "0 < day_ns" by (simp add: day_ns_def)
  show ?thesis using sub_div [OF pos assms] by (simp add: toordinal_def)
qed

lemma table_length:
  assumes "unit_stream L" and "0 \<le> seed" and "seed < 2 ^ 32" and "0 \<le> n_sku"
    and "to_datetime L start_date = Some a" and "to_datetime L end_date = Some b"
  shows "\<exists>df recs. generate_data L n_sku start_date end_date seed = Inr df
     \<and> df = sort_values recs
     \<and> map row_key recs =
         map (\<lambda>(i, d). (sku_name i, d)) (List.product [0..<nat n_sku] (day_steps a b))
     \<and> length df = nat n_sku * nat ((b - a) div day_ns + 1)"
proof -
  obtain df where df: "generate_data L n_sku start_date end_date seed = Inr df"
    using generate_data_returns [OF assms] by blast
  from generate_data_rows [OF df] assms(5,6) obtain recs where
    sorted: "df = sort_values recs" and
    keys: "map row_key recs =
         map (\<lambda>(i, d). (sku_name i, d)) (List.product [0..<nat n_sku] (day_steps a b))"
    by auto
  have "length recs = length (map row_key recs)" by simp
  also have "\<dots> = nat n_sku * nat ((b - a) div day_ns + 1)"
    unfolding keys by (simp add: day_steps_length)
  finally have "length df = nat n_sku * nat ((b - a) div day_ns + 1)"
    using sorted sort_values_keys [of recs] by simp
  then show ?thesis using df sorted keys by blast
qed

theorem time_of_day_counterexample:
  "unit_stream counting
   \<and> to_datetime counting ''2023-01-01 18:00'' = Some (at_day 738521 64800)
   \<and> to_datetime counting ''2023-01-02'' = Some (at_day 738522 0)
   \<and> at_day 738521 64800 \<le> at_day 738522 0
   \<and> toordinal (at_day 738522 0) - toordinal (at_day 738521 64800) + 1 = 2
   \<and> (\<exists>df. generate_data counting 1 ''2023-01-01 18:00'' ''2023-01-02'' 42 = Inr df
         \<and> length df = 1)"
proof -
  have d: "to_datetime counting ''2023-01-01 18:00'' = Some (at_day 738521 64800)"
    "to_datetime counting ''2023-01-02'' = Some (at_day 738522 0)"
    by (simp_all add: counting_simps demo_calendar_simps)
  have steps: "(at_day 738522 0 - at_day 738521 64800) div day_ns = 0"
    by (simp add: at_day_def day_ns_def)
  from table_length [OF counting_unit _ _ _ d, of 42 1]
  obtain df where "generate_data counting 1 ''2023-01-01 18:00'' ''2023-01-02'' 42 = Inr df"
    "length df = nat 1 * nat ((at_day 738522 0 - at_day 738521 64800) div day_ns + 1)"
    by auto
  then have "\<exists>df. generate_data counting 1 ''2023-01-01 18:00'' ''2023-01-02'' 42 = Inr df
      \<and> length df = 1"
    by (simp add: steps)
  moreover have "at_day 738521 64800 \<le> at_day 738522 0" using at_day_order(3) by simp
  moreover have "toordinal (at_day 738522 0) - toordinal (at_day 738521 64800) + 1 = 2"
    by (simp add: toordinal_at_day)
  ultimately show ?thesis using counting_unit d by blast
qed

text \<open>
  Claim C2, as amended. For a valid input (a stream of uniform doubles, a seed in range,
  no negative item count, a start and an end that parse, the start not after the end) the
  table has exactly the item count times the number of 24-hour steps from the start that
  do not pass the end: one record for each pair of an item and such a step, zero-demand
  days included. When the time of day of the start is not later than that of the end, as
  for two dates without a time of day, this number of steps is the inclusive number of
  calendar days.
\<close>

theorem row_count:
  assumes "unit_stream L" and "0 \<le> seed" and "seed < 2 ^ 32" and "0 \<le> n_sku"
    and "to_datetime L start_date = Some a" and "to_datetime L end_date = Some b"
    and "a \<le> b"
  shows "\<exists>df. generate_data L n_sku start_date end_date seed = Inr df
     \<and> length df = nat n_sku * nat ((b - a) div day_ns + 1)
     \<and> (\<forall>idx k. idx < nat n_sku \<and> 0 \<le> k \<and> a + k * day_ns \<le> b \<longrightarrow>
          length (filter (\<lambda>r. material r = sku_name idx \<and> demand_date r = a + k * day_ns) df)
            = 1)
     \<and> (a mod day_ns \<le> b mod day_ns \<longrightarrow>
          length df = nat n_sku * nat (toordinal b - toordinal a + 1))"
proof -
  from table_length [OF assms(1,2,3,4,5,6)] obtain df recs where
    df: "generate_data L n_sku start_date end_date seed = Inr df" and
    sorted: "df = sort_values recs" and
    keys: "map row_key recs =
         map (\<lambda>(i, d). (sku_name i, d)) (List.product [0..<nat n_sku] (day_steps a b))" and
    len: "length df = nat n_sku * nat ((b - a) div day_ns + 1)"
    by blast
  have one: "length (filter (\<lambda>r. material r = sku_name idx \<and> demand_date r = a + k * day_ns) df)
      = 1"
    if "idx < nat n_sku" and "0 \<le> k" and "a + k * day_ns \<le> b" for idx k
    using one_row_per_key [OF keys that(1) day_steps_member [OF that(2,3)]] sorted
    by (simp add: sort_values_filter)
  have days: "length df = nat n_sku * nat (toordinal b - toordinal a + 1)"
    if "a mod day_ns \<le> b mod day_ns"
    using len whole_days [OF that] by simp
  show ?thesis using df len one days by blast
qed

lemma at_day_midnight: "at_day ordinal 0 mod day_ns = 0"
  by (simp add: at_day_def)

theorem row_count_witness:
  "unit_stream counting \<and> (0::int) \<le> 42 \<and> (42::int) < 2 ^ 32 \<and> (0::int) \<le> 2
   \<and> to_datetime counting ''2023-01-01'' = Some (at_day 738521 0)
   \<and> to_datetime counting ''2023-01-02'' = Some (at_day 738522 0)
   \<and> at_day 738521 0 \<le> at_day 738522 0
   \<and> at_day 738521 0 mod day_ns \<le> at_day 738522 0 mod day_ns
   \<and> (\<exists>df. generate_data counting 2 ''2023-01-01'' ''2023-01-02'' 42 = Inr df \<and> length df = 4)"
proof -
  have s: "(0::int) \<le> 42" "(42::int) < 2 ^ 32" "(0::int) \<le> 2"
    "at_day 738521 0 \<le> at_day 738522 0"
    "at_day 738521 0 mod day_ns \<le> at_day 738522 0 mod day_ns"
    using at_day_order(1) by (simp_all add: at_day_midnight)
  have d: "to_datetime counting ''2023-01-01'' = Some (at_day 738521 0)"
    "to_datetime counting ''2023-01-02'' = Some (at_day 738522 0)"
    by (simp_all add: counting_simps demo_calendar_simps)
  from row_count [OF counting_unit s(1,2,3) d s(4)] s(5)
  obtain df where "generate_data counting 2 ''2023-01-01'' ''2023-01-02'' 42 = Inr df"
    "length df = nat 2 * nat (toordinal (at_day 738522 0) - toordinal (at_day 738521 0) + 1)"
    by blast
  then have "\<exists>df. generate_data counting 2 ''2023-01-01'' ''2023-01-02'' 42 = Inr df \<and> length df = 4"
    by (simp add: toordinal_at_day)
  then show ?thesis using counting_unit s d by blast
qed

subsection \<open>Order of the table\<close>

text \<open>
  Claim C8. The returned table is sorted by item identifier and, for equal identifiers,
  by date, both ascending, and no pair of identifier and date occurs twice. Identifiers
  are compared as the strings of the column \<^verbatim>\<open>Material\<close>.
\<close>

theorem table_sorted:
  assumes "generate_data L n_sku start_date end_date seed = Inr df"
  shows "sorted (map (\<lambda>r. (material r, demand_date r)) df)
     \<and> distinct (map (\<lambda>r. (material r, demand_date r)) df)
     \<and> (\<forall>i j. i < j \<and> j < length df \<longrightarrow>
          material (df ! i) < material (df ! j)
          \<or> (material (df ! i) = material (df ! j) \<and> demand_date (df ! i) < demand_date (df ! j)))"
proof -
  have eq: "(\<lambda>r. (material r, demand_date r)) = row_key" by (rule ext) (simp add: row_key_def)
  from generate_data_rows [OF assms] obtain a b recs where
    sorted: "df = sort_values recs" and
    keys: "map row_key recs = map (\<lambda>(i, d). (sku_name i, d)) (List.product [0..<nat n_sku] (day_steps a b))"
    by blast
  have "distinct (map row_key recs)" unfolding keys by (rule keys_distinct)
  then have sd: "sorted (map row_key df)" "distinct (map row_key df)"
    using sort_values_keys [of recs] sorted by simp_all
  then have "sorted_wrt (<) (map row_key df)" by (simp add: strict_sorted_iff)
  then have "row_key (df ! i) < row_key (df ! j)" if "i < j" and "j < length df" for i j
    using that by (simp add: sorted_wrt_iff_nth_less)
  then have "material (df ! i) < material (df ! j)
       \<or> (material (df ! i) = material (df ! j) \<and> demand_date (df ! i) < demand_date (df ! j))"
    if "i < j" and "j < length df" for i j
    using that by (fastforce simp: row_key_def less_prod_def)
  then show ?thesis using sd unfolding eq by blast
qed

theorem table_sorted_witness:
  "generate_data counting 2 ''2023-01-01'' ''2023-01-01'' 42 =
     Inr [\<lparr>demand_date = at_day 738521 0, material = ''SKU-0001'', demand_size = 8\<rparr>,
          \<lparr>demand_date = at_day 738521 0, material = ''SKU-0002'', demand_size = 15\<rparr>]
   \<and> sorted [(''SKU-0001'', at_day 738521 0), (''SKU-0002'', at_day 738521 0)]
   \<and> distinct [(''SKU-0001'', at_day 738521 0), (''SKU-0002'', at_day 738521 0)]"
  using table_sorted [OF counting_table] counting_table by simp

subsection \<open>Order of the draws\<close>

text \<open>
  Claim C5, as amended. The stream is consumed in this order: the categories of all items
  first, in one batch; then, for each item in turn, its daily rate, peak year, decay rate,
  mean size and coefficient of variation, followed by one gate draw per day and one size
  draw on each occurrence, with no draw of another item in between. The code returns,
  for every library, item count, dates and seed, what this order of draws returns.
\<close>

theorem draw_order_batched:
  "generate_data L n_sku start_date end_date seed =
     batched_reference L n_sku start_date end_date seed"
  by (simp only: generate_data_unfold batched_reference_def batched_order_eq)

theorem draw_order_batched_witness:
  "batched_reference counting 2 ''2023-01-01'' ''2023-01-01'' 42 =
     Inr [\<lparr>demand_date = at_day 738521 0, material = ''SKU-0001'', demand_size = 8\<rparr>,
          \<lparr>demand_date = at_day 738521 0, material = ''SKU-0002'', demand_size = 15\<rparr>]"
  using draw_order_batched [of counting 2 "''2023-01-01''" "''2023-01-01''" 42] counting_table
  by simp

theorem per_item_order_counterexample:
  "generate_data counting 2 ''2023-01-01'' ''2023-01-01'' 42 \<noteq>
     per_item_reference counting 2 ''2023-01-01'' ''2023-01-01'' 42"
  by (simp add: counting_table counting_per_item_table)

subsection \<open>Invalid configurations\<close>

theorem end_before_start_counterexample:
  "main counting \<lparr>arg_sku = 1, arg_start = ''2023-01-02'', arg_end = ''2023-01-01'',
      arg_seed = 42\<rparr> = Inr []
   \<and> main counting \<lparr>arg_sku = 0, arg_start = ''2023-01-01'', arg_end = ''2023-01-02'',
      arg_seed = 42\<rparr> = Inr []"
  by (simp add: main_def counting_empty_window counting_no_items)

lemma product_no_dates: "List.product xs [] = []"
  by (induction xs) simp_all

text \<open>
  Claim C6, as amended. The program validates nothing itself. A negative item count
  fails in the category draw and an unparseable date fails in the date parsing, both
  without output. An item count of zero, and an end date before the start date, do not
  fail: the program returns the empty table.
\<close>

theorem invalid_configuration_behaviour:
  assumes "0 \<le> arg_seed a" and "arg_seed a < 2 ^ 32"
  shows "(arg_sku a < 0 \<longrightarrow> main L a = Inl SizeValueError)
     \<and> (to_datetime L (arg_start a) = None \<or> to_datetime L (arg_end a) = None \<longrightarrow>
          (\<exists>e. main L a = Inl e))
     \<and> (arg_sku a = 0 \<and> to_datetime L (arg_start a) \<noteq> None \<and> to_datetime L (arg_end a) \<noteq> None \<longrightarrow>
          main L a = Inr [])
     \<and> (unit_stream L \<and> 0 \<le> arg_sku a \<and> to_datetime L (arg_start a) = Some x
          \<and> to_datetime L (arg_end a) = Some y \<and> y < x \<longrightarrow> main L a = Inr [])"
proof (intro conjI impI)
  assume "arg_sku a < 0"
  then show "main L a = Inl SizeValueError"
    using assms by (simp add: main_def generate_data_def choice_def)
next
  assume bad: "to_datetime L (arg_start a) = None \<or> to_datetime L (arg_end a) = None"
  then have "date_range L (arg_start a) (arg_end a) = Inl DateParseError"
    by (auto simp: date_range_def split: option.splits)
  then show "\<exists>e. main L a = Inl e"
    by (simp add: main_def generate_data_def split: sum.splits prod.splits)
next
  assume z: "arg_sku a = 0 \<and> to_datetime L (arg_start a) \<noteq> None \<and> to_datetime L (arg_end a) \<noteq> None"
  then show "main L a = Inr []"
    using assms
    by (auto simp: main_def generate_data_def choice_def date_range_def sort_values_def)
next
  assume h: "unit_stream L \<and> 0 \<le> arg_sku a \<and> to_datetime L (arg_start a) = Some x
          \<and> to_datetime L (arg_end a) = Some y \<and> y < x"
  then obtain df where df: "generate_data L (arg_sku a) (arg_start a) (arg_end a) (arg_seed a) = Inr df"
    using generate_data_returns [of L "arg_seed a" "arg_sku a" "arg_start a" x "arg_end a" y] assms
    by blast
  from generate_data_rows [OF df] h obtain recs where
    sorted: "df = sort_values recs" and
    keys: "map row_key recs = map (\<lambda>(i, d). (sku_name i, d)) (List.product [0..<nat (arg_sku a)] (day_steps x y))"
    by auto
  have "day_steps x y = []" using h by (simp add: day_steps_empty)
  then have "map row_key recs = []" using keys by (simp add: product_no_dates)
  then have "recs = []" by simp
  then show "main L a = Inr []" using df sorted by (simp add: main_def sort_values_def)
qed

theorem invalid_configuration_behaviour_witness:
  "main counting \<lparr>arg_sku = - 1, arg_start = ''2023-01-01'', arg_end = ''2023-01-02'',
      arg_seed = 42\<rparr> = Inl SizeValueError
   \<and> (\<exists>e. main counting \<lparr>arg_sku = 1, arg_start = ''yesterday'', arg_end = ''2023-01-02'',
      arg_seed = 42\<rparr> = Inl e)
   \<and> main counting \<lparr>arg_sku = 0, arg_start = ''2023-01-01'', arg_end = ''2023-01-02'',
      arg_seed = 42\<rparr> = Inr []
   \<and> main counting \<lparr>arg_sku = 3, arg_start = ''2023-01-02'', arg_end = ''2023-01-01'',
      arg_seed = 42\<rparr> = Inr []"
proof -
  have 1: "main counting \<lparr>arg_sku = - 1, arg_start = ''2023-01-01'', arg_end = ''2023-01-02'',
      arg_seed = 42\<rparr> = Inl SizeValueError"
    using invalid_configuration_behaviour [of "\<lparr>arg_sku = - 1, arg_start = ''2023-01-01'',
      arg_end = ''2023-01-02'', arg_seed = 42\<rparr>" counting]
    by simp
  have 2: "\<exists>e. main counting \<lparr>arg_sku = 1, arg_start = ''yesterday'', arg_end = ''2023-01-02'',
      arg_seed = 42\<rparr> = Inl e"
    using invalid_configuration_behaviour [of "\<lparr>arg_sku = 1, arg_start = ''yesterday'',
      arg_end = ''2023-01-02'', arg_seed = 42\<rparr>" counting]
    by (simp add: counting_simps demo_calendar_simps)
  have 3: "main counting \<lparr>arg_sku = 0, arg_start = ''2023-01-01'', arg_end = ''2023-01-02'',
      arg_seed = 42\<rparr> = Inr []"
    using invalid_configuration_behaviour [of "\<lparr>arg_sku = 0, arg_start = ''2023-01-01'',
      arg_end = ''2023-01-02'', arg_seed = 42\<rparr>" counting]
    by (simp add: counting_simps demo_calendar_simps)
  have 4: "main counting \<lparr>arg_sku = 3, arg_start = ''2023-01-02'', arg_end = ''2023-01-01'',
      arg_seed = 42\<rparr> = Inr []"
    using invalid_configuration_behaviour [of "\<lparr>arg_sku = 3, arg_start = ''2023-01-02'',
      arg_end = ''2023-01-01'', arg_seed = 42\<rparr>" counting "at_day 738522 0" "at_day 738521 0"]
    by (simp add: counting_simps demo_calendar_simps counting_unit at_day_order)
  show ?thesis using 1 2 3 4 by blast
qed

end
